theory Spec2Isabelle
  imports Main "HOL-Library.Log_Nat"
begin

section \<open>The host's Date object (ECMAScript, section "Date Objects")\<close>

text \<open>
  \<^verbatim>\<open>findXmasSunday\<close> builds \<^verbatim>\<open>new Date(year, 11, 25)\<close> and reads \<^verbatim>\<open>getDay()\<close>.
  Both are host primitives; they are modelled here from the abstract operations of the
  language standard, on integers. A time value is a number of milliseconds since
  1970-01-01T00:00 UTC; an invalid date (time value NaN) is \<open>None\<close>.

  Years are JavaScript numbers with an integral value, modelled as \<open>int\<close>.
  The local time zone of the host is a parameter \<open>tza\<close>: the offset of local time
  from UTC in milliseconds, taken as constant (no daylight-saving change between two
  reads of the same instant).
\<close>

definition msPerDay :: int where
  "msPerDay = 86400000"

definition msPerHour :: int where
  "msPerHour = 3600000"

definition msPerMinute :: int where
  "msPerMinute = 60000"

definition msPerSecond :: int where
  "msPerSecond = 1000"

text \<open>A host offset is less than one day in either direction.\<close>

definition valid_tza :: "int \<Rightarrow> bool" where
  "valid_tza tza \<longleftrightarrow> - msPerDay < tza \<and> tza < msPerDay"

definition DaysInYear :: "int \<Rightarrow> int" where
  "DaysInYear y =
     (if y mod 4 \<noteq> 0 then 365
      else if y mod 100 \<noteq> 0 then 366
      else if y mod 400 \<noteq> 0 then 365
      else 366)"

definition InLeapYear :: "int \<Rightarrow> int" where
  "InLeapYear y = (if DaysInYear y = 365 then 0 else 1)"

definition DayFromYear :: "int \<Rightarrow> int" where
  "DayFromYear y =
     365 * (y - 1970) + (y - 1969) div 4 - (y - 1901) div 100 + (y - 1601) div 400"

text \<open>The day within the year on which month \<open>mn\<close> (0 = January) starts.\<close>

definition DayWithinYearOfMonth :: "int \<Rightarrow> int \<Rightarrow> int" where
  "DayWithinYearOfMonth mn leap =
     (if mn = 0 then 0
      else if mn = 1 then 31
      else if mn = 2 then 59 + leap
      else if mn = 3 then 90 + leap
      else if mn = 4 then 120 + leap
      else if mn = 5 then 151 + leap
      else if mn = 6 then 181 + leap
      else if mn = 7 then 212 + leap
      else if mn = 8 then 243 + leap
      else if mn = 9 then 273 + leap
      else if mn = 10 then 304 + leap
      else 334 + leap)"

text \<open>
  \<open>MakeFullYear\<close>: the constructor with two or more arguments reads a year from 0 to 99
  as a year of the twentieth century.
\<close>

definition MakeFullYear :: "int \<Rightarrow> int" where
  "MakeFullYear y = (if 0 \<le> y \<and> y \<le> 99 then 1900 + y else y)"

text \<open>
  \<open>MakeDay\<close>: the day number of the given date. The standard asks for the time value
  \<open>t\<close> of the first day of month \<open>mn\<close> of year \<open>ym\<close> and returns \<open>Day(t) + dt - 1\<close>.
\<close>

definition MakeDay :: "int \<Rightarrow> int \<Rightarrow> int \<Rightarrow> int" where
  "MakeDay year month date =
     (let ym = year + month div 12;
          mn = month mod 12
      in DayFromYear ym + DayWithinYearOfMonth mn (InLeapYear ym) + date - 1)"

definition MakeTime :: "int \<Rightarrow> int \<Rightarrow> int \<Rightarrow> int \<Rightarrow> int" where
  "MakeTime hour minute sec ms =
     hour * msPerHour + minute * msPerMinute + sec * msPerSecond + ms"

definition MakeDate :: "int \<Rightarrow> int \<Rightarrow> int" where
  "MakeDate day time = day * msPerDay + time"

definition LocalTime :: "int \<Rightarrow> int \<Rightarrow> int" where
  "LocalTime tza t = t + tza"

definition UTC :: "int \<Rightarrow> int \<Rightarrow> int" where
  "UTC tza t = t - tza"

text \<open>\<open>TimeClip\<close>: a time value further than \<open>8.64e15\<close> ms from the epoch is NaN.\<close>

definition TimeClip :: "int \<Rightarrow> int option" where
  "TimeClip t = (if \<bar>t\<bar> > 8640000000000000 then None else Some t)"

text \<open>\<^verbatim>\<open>new Date(year, month, date)\<close>: the date's time value.\<close>

definition Date :: "int \<Rightarrow> int \<Rightarrow> int \<Rightarrow> int \<Rightarrow> int option" where
  "Date tza year month date =
     TimeClip (UTC tza (MakeDate (MakeDay (MakeFullYear year) month date)
                                 (MakeTime 0 0 0 0)))"

definition Day :: "int \<Rightarrow> int" where
  "Day t = t div msPerDay"

definition WeekDay :: "int \<Rightarrow> int" where
  "WeekDay t = (Day t + 4) mod 7"

text \<open>\<^verbatim>\<open>getDay()\<close>: 0 is Sunday, 6 is Saturday; NaN (\<open>None\<close>) for an invalid date.\<close>

definition getDay :: "int \<Rightarrow> int option \<Rightarrow> int option" where
  "getDay tza d = (case d of None \<Rightarrow> None | Some t \<Rightarrow> Some (WeekDay (LocalTime tza t)))"

section \<open>findXmasSunday\<close>

text \<open>
  \<^verbatim>\<open>
  function findXmasSunday(startYear, endYear) {
      const sundayYears = [];
      for (let year = startYear; year <= endYear; year++) {
          const xmasDate = new Date(year, 11, 25);
          if (xmasDate.getDay() === 0) {
              sundayYears.push(year);
          }
      }
      return sundayYears;
  }
  \<close>
  The loop is the recursive function \<open>findXmasSunday_loop\<close>, whose arguments are the
  loop variable \<open>year\<close> and the array \<open>sundayYears\<close> built so far.

  The loop variable is a Number, and \<^verbatim>\<open>year++\<close> adds exactly 1 only as long as the
  value is a safe integer (\<^verbatim>\<open>Number.MAX_SAFE_INTEGER\<close> is \<open>2^53 - 1\<close>). The model counts
  on \<open>int\<close>; it is the code for bounds that are safe integers, and the statements about
  the loop are made for such bounds.
\<close>

definition safe_integer :: "int \<Rightarrow> bool" where
  "safe_integer y \<longleftrightarrow> \<bar>y\<bar> \<le> 9007199254740991"

definition xmasDate :: "int \<Rightarrow> int \<Rightarrow> int option" where
  "xmasDate tza year = Date tza year 11 25"

function findXmasSunday_loop :: "int \<Rightarrow> int \<Rightarrow> int \<Rightarrow> int list \<Rightarrow> int list" where
  "findXmasSunday_loop tza year endYear sundayYears =
     (if year \<le> endYear
      then findXmasSunday_loop tza (year + 1) endYear
             (if getDay tza (xmasDate tza year) = Some 0
              then sundayYears @ [year] else sundayYears)
      else sundayYears)"
  by pat_completeness auto
termination
  by (relation "measure (\<lambda>(tza, year, endYear, sundayYears). nat (endYear + 1 - year))") auto

declare findXmasSunday_loop.simps [simp del]

definition findXmasSunday :: "int \<Rightarrow> int \<Rightarrow> int \<Rightarrow> int list" where
  "findXmasSunday tza startYear endYear = findXmasSunday_loop tza startYear endYear []"


section \<open>The weekday rule of the specification\<close>

text \<open>
  The specification asks for "standard civil-calendar weekday arithmetic (e.g., Zeller's
  congruence ...)". This is Zeller's congruence for the Gregorian calendar, written from
  its textbook form and independent of the host's day count: January and February count
  as months 13 and 14 of the year before, \<open>K\<close> is the year of the century, \<open>J\<close> the
  century, and the result is 0 for Saturday, 1 for Sunday, ..., 6 for Friday. Division
  rounds down, which extends the rule to years before 1 (proleptic calendar).
\<close>

definition zeller :: "int \<Rightarrow> int \<Rightarrow> int \<Rightarrow> int" where
  "zeller year month day =
     (let m = (if month < 3 then month + 12 else month);
          y = (if month < 3 then year - 1 else year);
          K = y mod 100;
          J = y div 100
      in (day + (13 * (m + 1)) div 5 + K + K div 4 + J div 4 + 5 * J) mod 7)"

definition xmas_on_sunday :: "int \<Rightarrow> bool" where
  "xmas_on_sunday y \<longleftrightarrow> zeller y 12 25 = 1"

text \<open>The years for which \<^verbatim>\<open>new Date(year, 11, 25)\<close> is a valid date.\<close>

definition date_year_ok :: "int \<Rightarrow> bool" where
  "date_year_ok y \<longleftrightarrow> - 271821 \<le> y \<and> y \<le> 275759"

text \<open>The weekday (0 = Sunday) of December 25 by the host's day count.\<close>

definition xday :: "int \<Rightarrow> int" where
  "xday y = (MakeDay y 11 25 + 4) mod 7"

section \<open>Numbers\<close>

text \<open>
  A JavaScript Number is an IEEE 754 double. Its finite values are rationals, so a Number
  is modelled as a rational or one of the three special values, and every arithmetic
  operation computes the exact rational result and rounds it to the nearest double, ties
  to the even significand (\<open>to_double\<close>). The sign of zero is not modelled: the code
  under study never divides by a zero that could be negative.
\<close>

datatype number = Num rat | PInf | NInf | NaN

definition two_pow :: "int \<Rightarrow> rat" where
  "two_pow e = (if 0 \<le> e then 2 ^ nat e else 1 / 2 ^ nat (- e))"

text \<open>The binary exponent of a positive rational \<open>a\<close>: \<open>2^e \<le> a < 2^(e+1)\<close>.\<close>

definition binade :: "rat \<Rightarrow> int" where
  "binade a =
     (let p = fst (quotient_of a); d = snd (quotient_of a); k = bitlen p - bitlen d
      in if two_pow k \<le> a then k else k - 1)"

definition round_half_even :: "rat \<Rightarrow> int" where
  "round_half_even r =
     (let f = \<lfloor>r\<rfloor>; d = r - of_int f
      in if d < 1 / 2 then f
         else if 1 / 2 < d then f + 1
         else if even f then f else f + 1)"

text \<open>
  Rounding to a double: 53 significant bits, exponents from \<open>-1022\<close> (below which the
  spacing of the subnormal numbers stays \<open>2^-1074\<close>) to 1023 (above which the result is
  infinite).
\<close>

definition to_double :: "rat \<Rightarrow> number" where
  "to_double q =
     (if q = 0 then Num 0
      else let a = \<bar>q\<bar>;
               e = max (binade a) (- 1022);
               u = two_pow (e - 52);
               v = of_int (round_half_even (a / u)) * u
           in if two_pow 1024 \<le> v then (if 0 < q then PInf else NInf)
              else Num (if 0 < q then v else - v))"

text \<open>The spacing of the doubles around a positive rational.\<close>

definition ulp :: "rat \<Rightarrow> rat" where
  "ulp a = two_pow (max (binade a) (- 1022) - 52)"

fun num_neg :: "number \<Rightarrow> number" where
  "num_neg (Num a) = Num (- a)"
| "num_neg PInf = NInf"
| "num_neg NInf = PInf"
| "num_neg NaN = NaN"

fun num_add :: "number \<Rightarrow> number \<Rightarrow> number" where
  "num_add (Num a) (Num b) = to_double (a + b)"
| "num_add NaN y = NaN"
| "num_add x NaN = NaN"
| "num_add PInf NInf = NaN"
| "num_add NInf PInf = NaN"
| "num_add PInf y = PInf"
| "num_add NInf y = NInf"
| "num_add (Num a) y = y"

definition num_sub :: "number \<Rightarrow> number \<Rightarrow> number" where
  "num_sub x y = num_add x (num_neg y)"

fun sign_of :: "number \<Rightarrow> int" where
  "sign_of (Num a) = (if a < 0 then - 1 else 1)"
| "sign_of PInf = 1"
| "sign_of NInf = - 1"
| "sign_of NaN = 1"

definition signed_inf :: "int \<Rightarrow> number" where
  "signed_inf s = (if s < 0 then NInf else PInf)"

fun num_mul :: "number \<Rightarrow> number \<Rightarrow> number" where
  "num_mul (Num a) (Num b) = to_double (a * b)"
| "num_mul NaN y = NaN"
| "num_mul x NaN = NaN"
| "num_mul x y =
     (if x = Num 0 \<or> y = Num 0 then NaN else signed_inf (sign_of x * sign_of y))"

fun num_div :: "number \<Rightarrow> number \<Rightarrow> number" where
  "num_div (Num a) (Num b) =
     (if b \<noteq> 0 then to_double (a / b)
      else if a = 0 then NaN
      else signed_inf (sign_of (Num a)))"
| "num_div NaN y = NaN"
| "num_div x NaN = NaN"
| "num_div (Num a) y = Num 0"
| "num_div x (Num b) = signed_inf (sign_of x * sign_of (Num b))"
| "num_div x y = NaN"

text \<open>
  A year or a length enters the arithmetic as the Number of that value; the years are
  taken to be integers that a Number holds exactly.
\<close>

definition number_of :: "int \<Rightarrow> number" where
  "number_of i = Num (of_int i)"

subsection \<open>\<^verbatim>\<open>Number.prototype.toFixed(1)\<close>\<close>

definition digit_char :: "nat \<Rightarrow> char" where
  "digit_char d = ''0123456789'' ! d"

fun digits_of :: "nat \<Rightarrow> string" where
  "digits_of n =
     (if n < 10 then [digit_char n] else digits_of (n div 10) @ [digit_char (n mod 10)])"

declare digits_of.simps [simp del]

text \<open>
  The result of \<^verbatim>\<open>toFixed\<close> is a string. For a value of \<open>10^21\<close> or more the standard
  falls back to the exponent notation of \<^verbatim>\<open>Number::toString\<close>, which is not rendered
  digit by digit here: \<open>ExpNotation x\<close> stands for that string.
\<close>

datatype rendered = Str string | ExpNotation number

text \<open>
  With one fraction digit: \<open>n\<close> is the integer for which \<open>n / 10 - x\<close> is as close to zero
  as possible, the larger one if there are two; its decimal digits are padded to two
  places and the point goes before the last.
\<close>

definition toFixed1 :: "number \<Rightarrow> rendered" where
  "toFixed1 x =
     (case x of
        NaN \<Rightarrow> Str ''NaN''
      | PInf \<Rightarrow> Str ''Infinity''
      | NInf \<Rightarrow> Str ''-Infinity''
      | Num q \<Rightarrow>
          (let s = (if q < 0 then ''-'' else []);
               a = \<bar>q\<bar>
           in if 10 ^ 21 \<le> a then ExpNotation x
              else let n = nat \<lfloor>a * 10 + 1 / 2\<rfloor>;
                       m = digits_of n;
                       m' = (if length m \<le> 1
                             then replicate (2 - length m) (CHR ''0'') @ m else m);
                       k = length m'
                   in Str (s @ take (k - 1) m' @ ''.'' @ drop (k - 1) m')))"

section \<open>ChristmasSundayFinder.calculateStatistics\<close>

text \<open>
  \<^verbatim>\<open>
  constructor() {
    this.currentYear = new Date().getFullYear();
    ...
  }
  \<close>
  The object holds the year that the host's clock showed when it was built. The rest of
  the constructor touches the page only.
\<close>

record ChristmasSundayFinder =
  currentYear :: int

definition new_ChristmasSundayFinder :: "int \<Rightarrow> ChristmasSundayFinder" where
  "new_ChristmasSundayFinder clockYear = \<lparr>currentYear = clockYear\<rparr>"

text \<open>
  \<^verbatim>\<open>
  calculateStatistics(years, startYear, endYear) {
    const totalYears = endYear - startYear + 1;
    const frequency = ((years.length / totalYears) * 100).toFixed(1);
    const nextSunday =
      years.find((year) => year >= this.currentYear) || "None in range";
    let gaps = [];
    for (let i = 1; i < years.length; i++) {
      gaps.push(years[i] - years[i - 1]);
    }
    const avgGap =
      gaps.length > 0
        ? (gaps.reduce((a, b) => a + b, 0) / gaps.length).toFixed(1)
        : "-";
    return { total: years.length, frequency: frequency, next: nextSunday, gap: avgGap };
  }
  \<close>
\<close>

datatype jsvalue = NumberV int | StringV string

record stats =
  total :: nat
  frequency :: rendered
  nextSunday :: jsvalue
  gap :: rendered

text \<open>The loop that fills \<^verbatim>\<open>gaps\<close>; the index stays inside the array.\<close>

function gaps_loop :: "int list \<Rightarrow> nat \<Rightarrow> number list \<Rightarrow> number list" where
  "gaps_loop years i gaps =
     (if i < length years
      then gaps_loop years (i + 1)
             (gaps @ [num_sub (number_of (years ! i)) (number_of (years ! (i - 1)))])
      else gaps)"
  by pat_completeness auto
termination
  by (relation "measure (\<lambda>(years, i, gaps). length years - i)") auto

declare gaps_loop.simps [simp del]

text \<open>
  \<^verbatim>\<open>x || "None in range"\<close> takes the string when \<^verbatim>\<open>find\<close> returns \<^verbatim>\<open>undefined\<close>
  and also when it returns the year 0, which is falsy.
\<close>

definition calculateStatistics ::
    "ChristmasSundayFinder \<Rightarrow> int list \<Rightarrow> int \<Rightarrow> int \<Rightarrow> stats" where
  "calculateStatistics this years startYear endYear =
     (let totalYears = num_add (num_sub (number_of endYear) (number_of startYear)) (Num 1);
          frequency = toFixed1 (num_mul (num_div (number_of (int (length years))) totalYears)
                                        (Num 100));
          nextSunday = (case find (\<lambda>year. currentYear this \<le> year) years of
                          None \<Rightarrow> StringV ''None in range''
                        | Some year \<Rightarrow>
                            if year = 0 then StringV ''None in range'' else NumberV year);
          gaps = gaps_loop years 1 [];
          avgGap = (if length gaps > 0
                    then toFixed1 (num_div (foldl num_add (Num 0) gaps)
                                           (number_of (int (length gaps))))
                    else Str ''-'')
      in \<lparr>total = length years, frequency = frequency, nextSunday = nextSunday,
          gap = avgGap\<rparr>)"

section \<open>findXmasSundays, the entry point of the page\<close>

text \<open>
  \<^verbatim>\<open>
  function findXmasSundays() {
    const startYear = parseInt(document.getElementById("startYear").value);
    const endYear = parseInt(document.getElementById("endYear").value);
    if (!startYear || !endYear) {
      alert("Please enter both start and end years!"); return;
    }
    if (startYear > endYear) {
      alert("Start year must be less than or equal to end year!"); return;
    }
    if (startYear < 1900 || endYear > 3000) {
      alert("Please enter years between 1900 and 3000!"); return;
    }
    ...
    setTimeout(() => {
      const years = findXmasSunday(startYear, endYear);
      ...
      displayResults(years, startYear, endYear);
    }, 500);
  }
  \<close>
  The two arguments are what \<^verbatim>\<open>parseInt\<close> returned for the two input fields: an
  integer, or \<open>None\<close> for NaN. The function raises nothing: a rejected input ends in an
  alert (\<open>Inl\<close> with its text) and no search; an accepted one ends in the years that
  are handed to \<^verbatim>\<open>displayResults\<close>.
\<close>

text \<open>\<^verbatim>\<open>!x\<close> for the result of \<^verbatim>\<open>parseInt\<close>: true for NaN and for 0.\<close>

definition falsy :: "int option \<Rightarrow> bool" where
  "falsy x = (case x of None \<Rightarrow> True | Some n \<Rightarrow> n = 0)"

definition findXmasSundays :: "int \<Rightarrow> int option \<Rightarrow> int option \<Rightarrow> string + int list" where
  "findXmasSundays tza startYear endYear =
     (if falsy startYear \<or> falsy endYear
      then Inl ''Please enter both start and end years!''
      else if the startYear > the endYear
      then Inl ''Start year must be less than or equal to end year!''
      else if the startYear < 1900 \<or> the endYear > 3000
      then Inl ''Please enter years between 1900 and 3000!''
      else Inr (findXmasSunday tza (the startYear) (the endYear)))"

text \<open>
  \<^verbatim>\<open>displayResults\<close> builds a new finder, which reads the clock, and shows the
  statistics of the years it was given.
\<close>

definition displayResults :: "int \<Rightarrow> int list \<Rightarrow> int \<Rightarrow> int \<Rightarrow> stats" where
  "displayResults clockYear years startYear endYear =
     calculateStatistics (new_ChristmasSundayFinder clockYear) years startYear endYear"

section \<open>Rounding to one decimal place, as the specification words it\<close>

text \<open>
  The specification says "rounded to one decimal place" and names the "consecutive
  differences" and their average. These definitions follow its words, in exact rational
  arithmetic: the differences of neighbouring years, their arithmetic mean, and the
  decimal numeral with one fraction digit that a rounding rule \<open>rnd\<close> gives, for the
  two usual rules at a tie (half up, half to even).
\<close>

definition consecutive_differences :: "int list \<Rightarrow> int list" where
  "consecutive_differences ys = map (\<lambda>i. ys ! i - ys ! (i - 1)) [1..<length ys]"

definition mean :: "int list \<Rightarrow> rat" where
  "mean ds = of_int (sum_list ds) / of_nat (length ds)"

definition round_half_up :: "rat \<Rightarrow> int" where
  "round_half_up r = \<lfloor>r + 1 / 2\<rfloor>"

definition one_decimal :: "(rat \<Rightarrow> int) \<Rightarrow> rat \<Rightarrow> string" where
  "one_decimal rnd x =
     (let n = nat (rnd (\<bar>x\<bar> * 10))
      in (if x < 0 then ''-'' else []) @ digits_of (n div 10) @ ''.'' @ [digit_char (n mod 10)])"

section \<open>The host's day count agrees with Zeller's congruence\<close>

lemma mod_period:
  "(400 * q + r) mod 4 = r mod (4::int)"
  "(400 * q + r) mod 100 = r mod (100::int)"
  "(400 * q + r) mod 400 = r mod (400::int)"
proof -
  have "400 * q + r = 4 * (100 * q) + r" by simp
  then show "(400 * q + r) mod 4 = r mod (4::int)" by (simp only: mod_mult_self4)
  have "400 * q + r = 100 * (4 * q) + r" by simp
  then show "(400 * q + r) mod 100 = r mod (100::int)" by (simp only: mod_mult_self4)
  show "(400 * q + r) mod 400 = r mod (400::int)" by (simp only: mod_mult_self4)
qed

lemma InLeapYear_period: "InLeapYear (400 * q + r) = InLeapYear r"
  by (simp only: InLeapYear_def DaysInYear_def mod_period)

lemma DayFromYear_period: "DayFromYear (400 * q + r) = DayFromYear r + 146097 * q"
proof -
  have "400 * q + r - 1969 = 4 * (100 * q) + (r - 1969)" by simp
  then have a: "(400 * q + r - 1969) div 4 = 100 * q + (r - 1969) div 4"
    by (simp only: div_mult_self4)
  have "400 * q + r - 1901 = 100 * (4 * q) + (r - 1901)" by simp
  then have b: "(400 * q + r - 1901) div 100 = 4 * q + (r - 1901) div 100"
    by (simp only: div_mult_self4)
  have "400 * q + r - 1601 = 400 * q + (r - 1601)" by simp
  then have c: "(400 * q + r - 1601) div 400 = q + (r - 1601) div 400"
    by (simp only: div_mult_self4)
  show ?thesis unfolding DayFromYear_def a b c by (simp add: algebra_simps)
qed

lemma MakeDay_xmas: "MakeDay y 11 25 = DayFromYear y + InLeapYear y + 358"
  by (simp add: MakeDay_def DayWithinYearOfMonth_def)

text \<open>A cycle of 400 Gregorian years has 146097 days, which is 20871 weeks.\<close>

lemma xday_period: "xday (400 * q + r) = xday r"
proof -
  have "MakeDay (400 * q + r) 11 25 + 4 = (MakeDay r 11 25 + 4) + 7 * (20871 * q)"
    by (simp add: MakeDay_xmas InLeapYear_period DayFromYear_period)
  then show ?thesis unfolding xday_def by (simp only: mod_mult_self2)
qed

lemma zeller_xmas:
  "zeller y 12 25 =
     (58 + y mod 100 + (y mod 100) div 4 + (y div 100) div 4 + 5 * (y div 100)) mod 7"
  by (simp add: zeller_def Let_def)

lemma zeller_period: "zeller (400 * q + r) 12 25 = zeller r 12 25"
proof -
  have a: "(400 * q + r) mod 100 = r mod 100" by (rule mod_period)
  have "400 * q + r = 100 * (4 * q) + r" by simp
  then have b: "(400 * q + r) div 100 = 4 * q + r div 100" by (simp only: div_mult_self4)
  have c: "(4 * q + r div 100) div 4 = q + (r div 100) div 4" by (simp only: div_mult_self4)
  have d: "58 + r mod 100 + (r mod 100) div 4 + (q + (r div 100) div 4) + 5 * (4 * q + r div 100)
      = (58 + r mod 100 + (r mod 100) div 4 + (r div 100) div 4 + 5 * (r div 100)) + 7 * (3 * q)"
    by (simp add: algebra_simps)
  show ?thesis unfolding zeller_xmas a b c d by (simp only: mod_mult_self2)
qed

text \<open>One full cycle, year by year.\<close>

lemma xday_zeller_cycle: "\<forall>r \<in> set [0..399]. xday r = (zeller r 12 25 + 6) mod 7"
  by code_simp

lemma xday_zeller: "xday y = (zeller y 12 25 + 6) mod 7"
proof -
  have y: "y = 400 * (y div 400) + y mod 400" by simp
  have "0 \<le> y mod 400" "y mod 400 \<le> 399" by simp_all
  then have "y mod 400 \<in> set [0..399]" by simp
  then have "xday (y mod 400) = (zeller (y mod 400) 12 25 + 6) mod 7"
    using xday_zeller_cycle by blast
  then have "xday (400 * (y div 400) + y mod 400) =
             (zeller (400 * (y div 400) + y mod 400) 12 25 + 6) mod 7"
    by (simp only: xday_period zeller_period)
  then show ?thesis using y by simp
qed

lemma zeller_range: "0 \<le> zeller y m d" "zeller y m d < 7"
  by (simp_all add: zeller_def Let_def)

lemma xday_sunday: "xday y = 0 \<longleftrightarrow> xmas_on_sunday y"
  using zeller_range [of y 12 25] unfolding xday_zeller xmas_on_sunday_def by presburger

section \<open>Which years give a valid date\<close>

lemma div_bounds:
  fixes a d :: int
  assumes "0 < d"
  shows "d * (a div d) \<le> a \<and> a < d * (a div d) + d"
proof -
  have "a = d * (a div d) + a mod d" by simp
  moreover have "0 \<le> a mod d" "a mod d < d" using assms by simp_all
  ultimately show ?thesis by linarith
qed

lemma InLeapYear_range: "0 \<le> InLeapYear y \<and> InLeapYear y \<le> 1"
  by (simp add: InLeapYear_def)

lemma DayFromYear_bounds:
  "400 * DayFromYear y \<le> 146097 * y - 287810501"
  "146097 * y - 287812400 \<le> 400 * DayFromYear y"
proof -
  define q4 where "q4 = (y - 1969) div 4"
  define q100 where "q100 = (y - 1901) div 100"
  define q400 where "q400 = (y - 1601) div 400"
  have a: "4 * q4 \<le> y - 1969 \<and> y - 1969 < 4 * q4 + 4"
    unfolding q4_def by (rule div_bounds) simp
  have b: "100 * q100 \<le> y - 1901 \<and> y - 1901 < 100 * q100 + 100"
    unfolding q100_def by (rule div_bounds) simp
  have c: "400 * q400 \<le> y - 1601 \<and> y - 1601 < 400 * q400 + 400"
    unfolding q400_def by (rule div_bounds) simp
  have D: "DayFromYear y = 365 * (y - 1970) + q4 - q100 + q400"
    by (simp add: DayFromYear_def q4_def q100_def q400_def)
  have a1: "400 * q4 \<le> 100 * y - 196900" "100 * y - 197200 \<le> 400 * q4"
    using a by linarith+
  have b1: "400 * q100 \<le> 4 * y - 7604" "4 * y - 8000 \<le> 400 * q100"
    using b by linarith+
  have c1: "400 * q400 \<le> y - 1601" "y - 2000 \<le> 400 * q400"
    using c by linarith+
  have E: "400 * DayFromYear y =
             146000 * y - 287620000 + 400 * q4 - 400 * q100 + 400 * q400"
    unfolding D by (simp add: algebra_simps)
  show "400 * DayFromYear y \<le> 146097 * y - 287810501"
    unfolding E using a1 b1 c1 by linarith
  show "146097 * y - 287812400 \<le> 400 * DayFromYear y"
    unfolding E using a1 b1 c1 by linarith
qed

lemma MakeFullYear_ok: "date_year_ok y \<Longrightarrow> date_year_ok (MakeFullYear y)"
  by (auto simp: date_year_ok_def MakeFullYear_def)

lemma MakeFullYear_not_ok: "\<not> date_year_ok y \<Longrightarrow> MakeFullYear y = y"
  by (auto simp: date_year_ok_def MakeFullYear_def)

lemma xmasDate_unfold:
  "xmasDate tza y = TimeClip (MakeDay (MakeFullYear y) 11 25 * msPerDay - tza)"
  by (simp add: xmasDate_def Date_def UTC_def MakeDate_def MakeTime_def)

lemma MakeDay_xmas_in_range:
  assumes "date_year_ok Y"
  shows "- 99999756 \<le> MakeDay Y 11 25 \<and> MakeDay Y 11 25 \<le> 99999740"
proof -
  have Y: "- 271821 \<le> Y" "Y \<le> 275759" using assms by (simp_all add: date_year_ok_def)
  have u: "400 * DayFromYear Y \<le> 39999752122"
    using DayFromYear_bounds(1) [of Y] Y by linarith
  have l: "- 40000045037 \<le> 400 * DayFromYear Y"
    using DayFromYear_bounds(2) [of Y] Y by linarith
  show ?thesis unfolding MakeDay_xmas using u l InLeapYear_range [of Y] by linarith
qed

lemma MakeDay_xmas_out_of_range:
  assumes "\<not> date_year_ok Y"
  shows "MakeDay Y 11 25 \<le> - 100000115 \<or> 100000099 \<le> MakeDay Y 11 25"
proof (cases "Y < - 271821")
  case True
  then have "400 * DayFromYear Y \<le> - 40000189235"
    using DayFromYear_bounds(1) [of Y] by linarith
  then show ?thesis unfolding MakeDay_xmas using InLeapYear_range [of Y] by linarith
next
  case False
  then have "275760 \<le> Y" using assms by (simp add: date_year_ok_def)
  then have "39999896320 \<le> 400 * DayFromYear Y"
    using DayFromYear_bounds(2) [of Y] by linarith
  then show ?thesis unfolding MakeDay_xmas using InLeapYear_range [of Y] by linarith
qed

lemma xmasDate_valid:
  assumes "valid_tza tza" "date_year_ok y"
  shows "xmasDate tza y = Some (MakeDay (MakeFullYear y) 11 25 * msPerDay - tza)"
proof -
  have "\<bar>MakeDay (MakeFullYear y) 11 25 * msPerDay - tza\<bar> \<le> 8640000000000000"
    using MakeDay_xmas_in_range [OF MakeFullYear_ok [OF assms(2)]] assms(1)
    unfolding valid_tza_def msPerDay_def by linarith
  then show ?thesis by (simp add: xmasDate_unfold TimeClip_def)
qed

lemma xmasDate_invalid:
  assumes "valid_tza tza" "\<not> date_year_ok y"
  shows "xmasDate tza y = None"
proof -
  have "\<bar>MakeDay y 11 25 * msPerDay - tza\<bar> > 8640000000000000"
    using MakeDay_xmas_out_of_range [OF assms(2)] assms(1)
    unfolding valid_tza_def msPerDay_def by linarith
  then show ?thesis by (simp add: xmasDate_unfold TimeClip_def MakeFullYear_not_ok [OF assms(2)])
qed

text \<open>
  What \<^verbatim>\<open>getDay()\<close> reads from the date of one loop iteration: reading in the zone the
  date was built in gives back the civil date, whatever the zone.
\<close>

lemma getDay_xmasDate:
  assumes "valid_tza tza"
  shows "getDay tza (xmasDate tza y) =
           (if date_year_ok y then Some (xday (MakeFullYear y)) else None)"
proof (cases "date_year_ok y")
  case True
  have "(MakeDay (MakeFullYear y) 11 25 * msPerDay) div msPerDay = MakeDay (MakeFullYear y) 11 25"
    by (simp add: msPerDay_def)
  then show ?thesis
    using True by (simp add: xmasDate_valid [OF assms True] getDay_def WeekDay_def Day_def
        LocalTime_def xday_def)
next
  case False
  then show ?thesis by (simp add: xmasDate_invalid [OF assms False] getDay_def)
qed

lemma getDay_xmasDate_sunday:
  assumes "valid_tza tza"
  shows "getDay tza (xmasDate tza y) = Some 0 \<longleftrightarrow>
           date_year_ok y \<and> xmas_on_sunday (MakeFullYear y)"
  by (simp add: getDay_xmasDate [OF assms] xday_sunday)

section \<open>The loop\<close>

lemma findXmasSunday_loop_filter:
  "findXmasSunday_loop tza year endYear acc =
     acc @ filter (\<lambda>y. getDay tza (xmasDate tza y) = Some 0) [year..endYear]"
proof (induction tza year endYear acc rule: findXmasSunday_loop.induct)
  case (1 tza year endYear sundayYears)
  show ?case
  proof (cases "year \<le> endYear")
    case True
    then have u: "[year..endYear] = year # [year + 1..endYear]" by (simp add: upto_rec1)
    show ?thesis
      using True "1.IH" by (subst findXmasSunday_loop.simps) (simp add: u)
  next
    case False
    then show ?thesis by (subst findXmasSunday_loop.simps) simp
  qed
qed

lemma findXmasSunday_filter:
  "findXmasSunday tza startYear endYear =
     filter (\<lambda>y. getDay tza (xmasDate tza y) = Some 0) [startYear..endYear]"
  unfolding findXmasSunday_def findXmasSunday_loop_filter by simp

lemma findXmasSunday_char:
  assumes "valid_tza tza"
  shows "findXmasSunday tza startYear endYear =
           filter (\<lambda>y. date_year_ok y \<and> xmas_on_sunday (MakeFullYear y)) [startYear..endYear]"
  unfolding findXmasSunday_filter getDay_xmasDate_sunday [OF assms] ..

lemma valid_tza_0: "valid_tza 0"
  by (simp add: valid_tza_def msPerDay_def)

section \<open>Claims about findXmasSunday\<close>

text \<open>
  Claim C1: for integer years \<open>start \<le> end\<close>, a year \<open>y\<close> of \<open>[start, end]\<close> is in the
  result of \<open>findXmasSunday\<close> if and only if December 25 of year \<open>y\<close> is a Sunday by the
  Gregorian weekday rule. The code says the same of itself ("Create date for December
  25th of current year") and misses it for the years 0 to 99, which the Date constructor
  reads as 1900 to 1999. The call on \<open>(0, 10)\<close> returns the years 4 and 10, for which
  December 25 is not a Sunday (it is one in 1904 and in 1910), and leaves out the year 5,
  for which it is.
\<close>

theorem findXmasSunday_two_digit_failing_input:
  "findXmasSunday 0 0 10 = [4, 10]
   \<and> \<not> xmas_on_sunday 4 \<and> \<not> xmas_on_sunday 10 \<and> xmas_on_sunday 5
   \<and> xmas_on_sunday 1904 \<and> xmas_on_sunday 1910"
  by code_simp

text \<open>
  Away from the years 0 to 99 the loop does what its comment says: for safe integer years
  \<open>start \<le> end\<close> and any time zone of the host, a year \<open>y\<close> of \<open>[start, end]\<close> that is
  not one of 0 to 99 and for which the Date is valid (\<open>-271821 \<le> y \<le> 275759\<close>) is in the
  result if and only if December 25 of year \<open>y\<close> is a Sunday by Zeller's congruence.
\<close>

theorem findXmasSunday_sunday_iff:
  assumes "valid_tza tza"
    and "safe_integer startYear" and "safe_integer endYear" and "startYear \<le> endYear"
    and "startYear \<le> y" and "y \<le> endYear"
    and "y < 0 \<or> 99 < y" and "date_year_ok y"
  shows "y \<in> set (findXmasSunday tza startYear endYear) \<longleftrightarrow> xmas_on_sunday y"
proof -
  have "MakeFullYear y = y" using assms(7) by (auto simp: MakeFullYear_def)
  then show ?thesis
    using assms by (simp add: findXmasSunday_char [OF assms(1)])
qed

theorem findXmasSunday_sunday_iff_witness:
  "valid_tza 0 \<and> safe_integer 2000 \<and> safe_integer 2025
   \<and> (2000::int) \<le> 2025 \<and> (2000::int) \<le> 2005 \<and> (2005::int) \<le> 2025
   \<and> ((2005::int) < 0 \<or> 99 < (2005::int)) \<and> date_year_ok 2005
   \<and> 2005 \<in> set (findXmasSunday 0 2000 2025) \<and> xmas_on_sunday 2005"
proof -
  have a: "valid_tza 0" by (rule valid_tza_0)
  have b: "date_year_ok 2005" by (simp add: date_year_ok_def)
  have c: "xmas_on_sunday 2005" by (simp add: xmas_on_sunday_def zeller_def)
  have d: "safe_integer 2000" "safe_integer 2025" by (simp_all add: safe_integer_def)
  show ?thesis
    using findXmasSunday_sunday_iff [of 0 2000 2025 2005] a b c d by simp
qed

text \<open>
  Claim C2: for (safe) integer years \<open>start \<le> end\<close>, every element of the result of
  \<open>findXmasSunday\<close> lies in \<open>[start, end]\<close>, and the result is strictly ascending, hence
  without duplicates.
\<close>

theorem findXmasSunday_within_ascending:
  assumes "safe_integer startYear" and "safe_integer endYear" and "startYear \<le> endYear"
  shows "(\<forall>y \<in> set (findXmasSunday tza startYear endYear). startYear \<le> y \<and> y \<le> endYear)
         \<and> sorted_wrt (<) (findXmasSunday tza startYear endYear)
         \<and> distinct (findXmasSunday tza startYear endYear)"
  unfolding findXmasSunday_filter
  by (simp add: sorted_wrt_filter sorted_wrt_upto)

theorem findXmasSunday_within_ascending_witness:
  "safe_integer 2000 \<and> safe_integer 2025 \<and> (2000::int) \<le> 2025
   \<and> set (findXmasSunday 0 2000 2025) \<subseteq> {2000..2025}
   \<and> sorted_wrt (<) (findXmasSunday 0 2000 2025)
   \<and> distinct (findXmasSunday 0 2000 2025)
   \<and> findXmasSunday 0 2000 2025 \<noteq> []"
proof -
  have "findXmasSunday 0 2000 2025 \<noteq> []" by code_simp
  moreover have "safe_integer 2000" "safe_integer 2025" by (simp_all add: safe_integer_def)
  ultimately show ?thesis using findXmasSunday_within_ascending [of 2000 2025 0] by auto
qed

text \<open>
  Claim C3: \<open>findXmasSunday(2000, 2025)\<close> returns exactly 2005, 2011, 2016, 2022, in any
  time zone of the host.
\<close>

theorem findXmasSunday_golden:
  assumes "valid_tza tza"
  shows "findXmasSunday tza 2000 2025 = [2005, 2011, 2016, 2022]"
proof -
  have "filter (\<lambda>y. date_year_ok y \<and> xmas_on_sunday (MakeFullYear y)) [2000..2025]
          = [2005, 2011, 2016, 2022]"
    by code_simp
  then show ?thesis by (simp only: findXmasSunday_char [OF assms])
qed

theorem findXmasSunday_golden_witness:
  "valid_tza 3600000 \<and> findXmasSunday 3600000 2000 2025 = [2005, 2011, 2016, 2022]"
proof -
  have "valid_tza 3600000" by (simp add: valid_tza_def msPerDay_def)
  then show ?thesis using findXmasSunday_golden [of 3600000] by simp
qed

lemma two_digit_never_own_sunday:
  "\<forall>y \<in> set [0..99]. \<not> (xmas_on_sunday (y + 1900) \<and> xmas_on_sunday y)"
  by code_simp

text \<open>
  Claim C10: for \<open>start\<close> and \<open>end\<close> in \<open>[0, 99]\<close>, the date that \<open>findXmasSunday\<close> builds
  for a year \<open>y\<close> of \<open>[start, end]\<close> is December 25 of the year \<open>y + 1900\<close>; the result holds
  exactly the years \<open>y\<close> for which December 25 of \<open>y + 1900\<close> is a Sunday, and for none of
  them is December 25 of the year \<open>y\<close> itself a Sunday.
\<close>

theorem findXmasSunday_two_digit_years:
  assumes "valid_tza tza"
    and "0 \<le> startYear" and "startYear \<le> 99" and "0 \<le> endYear" and "endYear \<le> 99"
  shows "(\<forall>y. startYear \<le> y \<and> y \<le> endYear \<longrightarrow> xmasDate tza y = xmasDate tza (y + 1900))
         \<and> findXmasSunday tza startYear endYear
             = filter (\<lambda>y. xmas_on_sunday (y + 1900)) [startYear..endYear]
         \<and> (\<forall>y \<in> set (findXmasSunday tza startYear endYear). \<not> xmas_on_sunday y)"
proof -
  have full: "MakeFullYear y = y + 1900 \<and> date_year_ok y \<and> MakeFullYear (y + 1900) = y + 1900"
    if "startYear \<le> y" "y \<le> endYear" for y
    using that assms by (simp add: MakeFullYear_def date_year_ok_def)
  have one: "\<forall>y. startYear \<le> y \<and> y \<le> endYear \<longrightarrow> xmasDate tza y = xmasDate tza (y + 1900)"
    using full by (simp add: xmasDate_unfold)
  have two: "findXmasSunday tza startYear endYear
             = filter (\<lambda>y. xmas_on_sunday (y + 1900)) [startYear..endYear]"
    unfolding findXmasSunday_char [OF assms(1)]
    by (rule filter_cong) (use full in auto)
  have three: "\<forall>y \<in> set (findXmasSunday tza startYear endYear). \<not> xmas_on_sunday y"
  proof
    fix y assume "y \<in> set (findXmasSunday tza startYear endYear)"
    then have y: "startYear \<le> y" "y \<le> endYear" "xmas_on_sunday (y + 1900)"
      unfolding two by simp_all
    then have "y \<in> set [0..99]" using assms by simp
    then show "\<not> xmas_on_sunday y" using two_digit_never_own_sunday y(3) by blast
  qed
  show ?thesis using one two three by blast
qed

theorem findXmasSunday_two_digit_years_witness:
  "valid_tza 0 \<and> (0::int) \<le> 0 \<and> (0::int) \<le> 99 \<and> (0::int) \<le> 10 \<and> (10::int) \<le> 99
   \<and> xmasDate 0 4 = xmasDate 0 1904
   \<and> findXmasSunday 0 0 10 = [4, 10]
   \<and> filter (\<lambda>y. xmas_on_sunday (y + 1900)) [0..10] = [4, 10]
   \<and> \<not> xmas_on_sunday 4 \<and> \<not> xmas_on_sunday 10"
proof -
  have f: "filter (\<lambda>y. xmas_on_sunday (y + 1900)) [0..10] = [4, 10]" by code_simp
  have T: "(\<forall>y. 0 \<le> y \<and> y \<le> 10 \<longrightarrow> xmasDate 0 y = xmasDate 0 (y + 1900))
         \<and> findXmasSunday 0 0 10 = filter (\<lambda>y. xmas_on_sunday (y + 1900)) [0..10]
         \<and> (\<forall>y \<in> set (findXmasSunday 0 0 10). \<not> xmas_on_sunday y)"
    by (rule findXmasSunday_two_digit_years) (simp_all add: valid_tza_0)
  from T have "0 \<le> (4::int) \<and> (4::int) \<le> 10 \<longrightarrow> xmasDate 0 4 = xmasDate 0 (4 + 1900)"
    by blast
  then have a: "xmasDate 0 4 = xmasDate 0 1904" by simp
  from T f have b: "findXmasSunday 0 0 10 = [4, 10]" by (simp only:)
  from T have "\<forall>y \<in> set (findXmasSunday 0 0 10). \<not> xmas_on_sunday y" by blast
  then have "\<forall>y \<in> set [4, 10 :: int]. \<not> xmas_on_sunday y" unfolding b .
  then have c: "\<not> xmas_on_sunday 4 \<and> \<not> xmas_on_sunday 10" by simp
  show ?thesis using a b c f valid_tza_0 by (simp only:) simp
qed

section \<open>Claims about the range checks\<close>

text \<open>
  Claim C4, as stated: calling the find operation with \<open>start > end\<close>, for example
  \<open>(2000, 1999)\<close>, fails with an error. \<open>findXmasSunday\<close> has no error to fail with: its
  loop does not run and it returns the empty list.
\<close>

theorem findXmasSunday_inverted_counterexample:
  "(1999::int) < 2000 \<and> findXmasSunday 0 2000 1999 = []"
  by (simp add: findXmasSunday_filter)

text \<open>
  Claim C4, amended: with \<open>start > end\<close>, \<open>findXmasSunday\<close> returns the empty list and
  raises nothing; the range is rejected one level up, by the page's entry point
  \<open>findXmasSundays\<close>, which ends in an alert and runs no search. The alert is "Start year
  must be less than or equal to end year!" unless a bound is 0.
\<close>

theorem inverted_range:
  assumes "endYear < startYear"
  shows "findXmasSunday tza startYear endYear = []
         \<and> (\<exists>msg. findXmasSundays tza (Some startYear) (Some endYear) = Inl msg)
         \<and> (startYear \<noteq> 0 \<and> endYear \<noteq> 0 \<longrightarrow>
              findXmasSundays tza (Some startYear) (Some endYear)
                = Inl ''Start year must be less than or equal to end year!'')"
  using assms by (simp add: findXmasSunday_filter findXmasSundays_def falsy_def)

theorem inverted_range_witness:
  "(1999::int) < 2000
   \<and> findXmasSunday 0 2000 1999 = []
   \<and> findXmasSundays 0 (Some 2000) (Some 1999)
        = Inl ''Start year must be less than or equal to end year!''"
  using inverted_range [of 1999 2000 0] by simp

text \<open>
  Claim C5: for a requested range with \<open>start \<le> end\<close>, the guard
  \<open>startYear < 1900 || endYear > 3000\<close> of \<open>findXmasSundays\<close> holds exactly when either
  bound lies outside 1900 to 3000; the request ends in an alert, with no search, exactly
  in that case (the alert of this guard, unless a bound is 0 and the guard for a missing
  input has rejected it before); and a range inside the bounds is searched as it was
  given, never changed.
\<close>

theorem sane_bound_guard:
  assumes "startYear \<le> endYear"
  shows "((startYear < 1900 \<or> 3000 < endYear)
            \<longleftrightarrow> (startYear < 1900 \<or> 3000 < startYear \<or> endYear < 1900 \<or> 3000 < endYear))
         \<and> ((\<exists>msg. findXmasSundays tza (Some startYear) (Some endYear) = Inl msg)
            \<longleftrightarrow> (startYear < 1900 \<or> 3000 < startYear \<or> endYear < 1900 \<or> 3000 < endYear))
         \<and> ((startYear < 1900 \<or> 3000 < startYear \<or> endYear < 1900 \<or> 3000 < endYear)
              \<and> startYear \<noteq> 0 \<and> endYear \<noteq> 0 \<longrightarrow>
              findXmasSundays tza (Some startYear) (Some endYear)
                = Inl ''Please enter years between 1900 and 3000!'')
         \<and> (1900 \<le> startYear \<and> endYear \<le> 3000 \<longrightarrow>
              findXmasSundays tza (Some startYear) (Some endYear)
                = Inr (findXmasSunday tza startYear endYear))"
  using assms by (auto simp: findXmasSundays_def falsy_def)

theorem sane_bound_guard_witness:
  "(1800::int) \<le> 1850
   \<and> findXmasSundays 0 (Some 1800) (Some 1850) = Inl ''Please enter years between 1900 and 3000!''
   \<and> (2000::int) \<le> 3001
   \<and> findXmasSundays 0 (Some 2000) (Some 3001) = Inl ''Please enter years between 1900 and 3000!''
   \<and> (2000::int) \<le> 2025
   \<and> findXmasSundays 0 (Some 2000) (Some 2025) = Inr (findXmasSunday 0 2000 2025)"
  using sane_bound_guard [of 1800 1850 0] sane_bound_guard [of 2000 3001 0]
    sane_bound_guard [of 2000 2025 0]
  by simp

section \<open>Rounding to a double\<close>

lemma two_pow_powi: "two_pow e = 2 powi e"
  by (simp add: two_pow_def power_int_def field_simps)

lemma two_pow_pos: "0 < two_pow e"
  by (simp add: two_pow_powi)

lemma two_pow_mono: "i \<le> j \<Longrightarrow> two_pow i \<le> two_pow j"
  by (simp add: two_pow_powi power_int_increasing)

lemma two_pow_diff: "two_pow (i - j) = two_pow i / two_pow j"
  by (simp add: two_pow_powi power_int_diff)

lemma round_half_even_bounds:
  "of_int (round_half_even r) \<le> r + 1 / 2" "r - 1 / 2 \<le> of_int (round_half_even r)"
  unfolding round_half_even_def Let_def by (auto; linarith)+

lemma round_half_even_mono_int:
  assumes "of_int n \<le> r"
  shows "n \<le> round_half_even r"
proof -
  have "n \<le> \<lfloor>r\<rfloor>" using assms by (simp add: le_floor_iff)
  then show ?thesis unfolding round_half_even_def Let_def by auto
qed

lemma round_half_even_of_int: "round_half_even (of_int n) = n"
  unfolding round_half_even_def Let_def by simp

lemma binade_lower:
  assumes "0 < a"
  shows "two_pow (binade a) \<le> a"
proof -
  define p where "p = fst (quotient_of a)"
  define d where "d = snd (quotient_of a)"
  have q: "quotient_of a = (p, d)" by (simp add: p_def d_def)
  have d: "0 < d" using quotient_of_denom_pos [OF q] .
  have a: "a = of_int p / of_int d" using quotient_of_div [OF q] .
  have p: "0 < p" using assms d unfolding a by (simp add: zero_less_divide_iff)
  define k where "k = bitlen p - bitlen d"
  have b: "binade a = (if two_pow k \<le> a then k else k - 1)"
    by (simp add: binade_def Let_def p_def d_def k_def)
  have pl: "2 ^ nat (bitlen p - 1) \<le> p" using bitlen_bounds [OF p] by simp
  have du: "d < 2 ^ nat (bitlen d)" using bitlen_bounds [OF d] by simp
  have bp: "1 \<le> bitlen p" using p by (simp add: bitlen_def floorlog_def)
  have bd: "1 \<le> bitlen d" using d by (simp add: bitlen_def floorlog_def)
  have "two_pow (k - 1) = two_pow (bitlen p - 1) / two_pow (bitlen d)"
    unfolding k_def by (simp add: two_pow_diff [symmetric] algebra_simps)
  also have "two_pow (bitlen p - 1) = 2 ^ nat (bitlen p - 1)"
    using bp by (simp add: two_pow_def)
  also have "two_pow (bitlen d) = 2 ^ nat (bitlen d)"
    using bd by (simp add: two_pow_def)
  also have "(2 ^ nat (bitlen p - 1) :: rat) / 2 ^ nat (bitlen d) \<le> of_int p / 2 ^ nat (bitlen d)"
  proof -
    have "(2 ^ nat (bitlen p - 1) :: rat) \<le> of_int p"
      using pl by (metis of_int_le_iff of_int_numeral of_int_power)
    then show ?thesis by (simp add: divide_right_mono)
  qed
  also have "of_int p / (2 ^ nat (bitlen d) :: rat) \<le> of_int p / of_int d"
  proof -
    have "(of_int d :: rat) \<le> 2 ^ nat (bitlen d)"
      using du by (metis less_imp_le of_int_le_iff of_int_numeral of_int_power)
    moreover have "(0::rat) < of_int d" using d by simp
    moreover have "(0::rat) \<le> of_int p" using p by simp
    ultimately show ?thesis by (simp add: divide_left_mono)
  qed
  finally have "two_pow (k - 1) \<le> a" unfolding a .
  then show ?thesis unfolding b by simp
qed

text \<open>The rounding of a rational that is at least 1 is positive or infinite.\<close>

lemma to_double_ge_1:
  assumes "1 \<le> q"
  shows "to_double q = PInf \<or> (\<exists>v. to_double q = Num v \<and> 0 < v)"
proof -
  have q: "0 < q" "q \<noteq> 0" "\<bar>q\<bar> = q" using assms by simp_all
  define e where "e = max (binade q) (- 1022)"
  define u where "u = two_pow (e - 52)"
  define v where "v = of_int (round_half_even (q / u)) * u"
  have td: "to_double q = (if two_pow 1024 \<le> v then PInf else Num v)"
    using q by (simp add: to_double_def Let_def e_def u_def v_def)
  have u: "0 < u" unfolding u_def by (rule two_pow_pos)
  have "u \<le> q"
  proof (cases "binade q \<le> - 1022")
    case True
    then have "e = - 1022" by (simp add: e_def)
    then have "u \<le> two_pow 0" unfolding u_def by (intro two_pow_mono) simp
    then show ?thesis using assms by (simp add: two_pow_def)
  next
    case False
    then have "e = binade q" by (simp add: e_def)
    then have "u \<le> two_pow (binade q)" unfolding u_def by (intro two_pow_mono) simp
    then show ?thesis using binade_lower [OF q(1)] by simp
  qed
  then have "of_int 1 \<le> q / u" using u by (simp add: le_divide_eq)
  then have "1 \<le> round_half_even (q / u)" by (rule round_half_even_mono_int)
  then have "0 < v" unfolding v_def using u by (simp add: zero_less_mult_iff)
  then show ?thesis unfolding td by simp
qed

lemma to_double_nonneg:
  assumes "0 \<le> q"
  shows "to_double q = PInf \<or> (\<exists>v. to_double q = Num v \<and> 0 \<le> v)"
proof (cases "q = 0")
  case True
  then show ?thesis by (simp add: to_double_def)
next
  case False
  then have q: "0 < q" "\<bar>q\<bar> = q" using assms by simp_all
  define u where "u = two_pow (max (binade q) (- 1022) - 52)"
  define v where "v = of_int (round_half_even (q / u)) * u"
  have td: "to_double q = (if two_pow 1024 \<le> v then PInf else Num v)"
    using q False by (simp add: to_double_def Let_def u_def v_def)
  have u: "0 < u" unfolding u_def by (rule two_pow_pos)
  then have "of_int 0 \<le> q / u" using q by simp
  then have "0 \<le> round_half_even (q / u)" by (rule round_half_even_mono_int)
  then have "0 \<le> v" unfolding v_def using u by simp
  then show ?thesis unfolding td by auto
qed

lemma totalYears_positive:
  assumes "startYear \<le> endYear"
  shows "num_add (num_sub (number_of endYear) (number_of startYear)) (Num 1) = PInf
         \<or> (\<exists>v. num_add (num_sub (number_of endYear) (number_of startYear)) (Num 1) = Num v
                \<and> 0 < v)"
proof -
  have s: "num_sub (number_of endYear) (number_of startYear)
             = to_double (of_int endYear - of_int startYear)"
    by (simp add: num_sub_def number_of_def)
  have "(0::rat) \<le> of_int endYear - of_int startYear" using assms by simp
  from to_double_nonneg [OF this] show ?thesis
  proof
    assume "to_double (of_int endYear - of_int startYear) = PInf"
    then show ?thesis unfolding s by simp
  next
    assume "\<exists>v. to_double (of_int endYear - of_int startYear) = Num v \<and> 0 \<le> v"
    then obtain v where v: "to_double (of_int endYear - of_int startYear) = Num v" "0 \<le> v"
      by blast
    have "1 \<le> v + 1" using v(2) by simp
    from to_double_ge_1 [OF this] show ?thesis unfolding s v(1) by simp
  qed
qed

lemma to_double_0: "to_double 0 = Num 0"
  by (simp add: to_double_def)

lemma toFixed1_0: "toFixed1 (Num 0) = Str ''0.0''"
  by (simp add: toFixed1_def Let_def digits_of.simps digit_char_def)

lemma gaps_loop_short: "length years \<le> i \<Longrightarrow> gaps_loop years i gaps = gaps"
  by (subst gaps_loop.simps) simp

section \<open>Claims about calculateStatistics\<close>

text \<open>
  Claim C6: for every range \<open>start \<le> end\<close>, \<open>calculateStatistics\<close> on the empty year list
  returns the count 0, the frequency "0.0", the next-year sentinel "None in range" and
  the average-gap sentinel "-". The division is by a positive number of years (or by
  infinity), never by zero, so the frequency is not "NaN".
\<close>

theorem calculateStatistics_empty:
  assumes "startYear \<le> endYear"
  shows "calculateStatistics this [] startYear endYear =
           \<lparr>total = 0, frequency = Str ''0.0'', nextSunday = StringV ''None in range'',
            gap = Str ''-''\<rparr>"
proof -
  define t where "t = num_add (num_sub (number_of endYear) (number_of startYear)) (Num 1)"
  have "t = PInf \<or> (\<exists>v. t = Num v \<and> 0 < v)"
    unfolding t_def by (rule totalYears_positive [OF assms])
  then have "num_div (Num 0) t = Num 0"
    by (auto simp: to_double_0)
  then have f: "toFixed1 (num_mul (num_div (number_of (int (length ([]::int list)))) t) (Num 100))
            = Str ''0.0''"
    by (simp add: number_of_def to_double_0 toFixed1_0)
  have g: "gaps_loop [] 1 [] = []" by (simp add: gaps_loop_short)
  show ?thesis
    unfolding calculateStatistics_def Let_def t_def [symmetric] f g by simp
qed

theorem calculateStatistics_empty_witness:
  "(2000::int) \<le> 2025
   \<and> calculateStatistics (new_ChristmasSundayFinder 2026) [] 2000 2025 =
           \<lparr>total = 0, frequency = Str ''0.0'', nextSunday = StringV ''None in range'',
            gap = Str ''-''\<rparr>"
  using calculateStatistics_empty [of 2000 2025 "new_ChristmasSundayFinder 2026"] by simp

text \<open>
  Claim C9, as stated: two calls of \<open>calculateStatistics\<close> with the same year list and
  range bounds return equal results, independent of any clock or instance. The method
  reads \<open>this.currentYear\<close>, which the constructor took from the clock: on a finder built
  in 2004 and on one built in 2010 the same arguments give two different results.
\<close>

theorem calculateStatistics_clock_counterexample:
  "calculateStatistics (new_ChristmasSundayFinder 2004) [2005, 2011] 2000 2025
     \<noteq> calculateStatistics (new_ChristmasSundayFinder 2010) [2005, 2011] 2000 2025"
proof
  assume "calculateStatistics (new_ChristmasSundayFinder 2004) [2005, 2011] 2000 2025
     = calculateStatistics (new_ChristmasSundayFinder 2010) [2005, 2011] 2000 2025"
  then have "nextSunday (calculateStatistics (new_ChristmasSundayFinder 2004) [2005, 2011] 2000 2025)
     = nextSunday (calculateStatistics (new_ChristmasSundayFinder 2010) [2005, 2011] 2000 2025)"
    by simp
  then show False
    by (simp add: calculateStatistics_def Let_def new_ChristmasSundayFinder_def)
qed

text \<open>
  Claim C9, amended: the count, the frequency and the average gap that
  \<open>calculateStatistics\<close> returns are functions of the year list and the range bounds
  alone; the whole result depends on the instance only through its field
  \<open>currentYear\<close>, the year of the clock when the finder was built.
\<close>

theorem calculateStatistics_depends_on_currentYear_only:
  "total (calculateStatistics this years startYear endYear)
     = total (calculateStatistics this' years startYear endYear)
   \<and> frequency (calculateStatistics this years startYear endYear)
       = frequency (calculateStatistics this' years startYear endYear)
   \<and> gap (calculateStatistics this years startYear endYear)
       = gap (calculateStatistics this' years startYear endYear)
   \<and> (currentYear this = currentYear this' \<longrightarrow>
        calculateStatistics this years startYear endYear
          = calculateStatistics this' years startYear endYear)"
  by (simp add: calculateStatistics_def Let_def)

theorem calculateStatistics_depends_on_currentYear_only_witness:
  "total (calculateStatistics (new_ChristmasSundayFinder 2004) [2005, 2011] 2000 2025)
     = total (calculateStatistics (new_ChristmasSundayFinder 2010) [2005, 2011] 2000 2025)
   \<and> frequency (calculateStatistics (new_ChristmasSundayFinder 2004) [2005, 2011] 2000 2025)
       = frequency (calculateStatistics (new_ChristmasSundayFinder 2010) [2005, 2011] 2000 2025)
   \<and> gap (calculateStatistics (new_ChristmasSundayFinder 2004) [2005, 2011] 2000 2025)
       = gap (calculateStatistics (new_ChristmasSundayFinder 2010) [2005, 2011] 2000 2025)
   \<and> currentYear (new_ChristmasSundayFinder 2004) = currentYear \<lparr>currentYear = 2004\<rparr>
   \<and> calculateStatistics (new_ChristmasSundayFinder 2004) [2005, 2011] 2000 2025
       = calculateStatistics \<lparr>currentYear = 2004\<rparr> [2005, 2011] 2000 2025"
  using calculateStatistics_depends_on_currentYear_only
          [of "new_ChristmasSundayFinder 2004" "[2005, 2011]" 2000 2025 "new_ChristmasSundayFinder 2010"]
        calculateStatistics_depends_on_currentYear_only
          [of "new_ChristmasSundayFinder 2004" "[2005, 2011]" 2000 2025 "\<lparr>currentYear = 2004\<rparr>"]
  by (simp add: new_ChristmasSundayFinder_def)

section \<open>The error of rounding to a double\<close>

lemma two_pow_strict_mono: "i < j \<Longrightarrow> two_pow i < two_pow j"
  by (simp add: two_pow_powi power_int_strict_increasing)

lemma two_pow_less_cancel: "two_pow i < two_pow j \<Longrightarrow> i < j"
  using two_pow_mono [of j i] by (cases "i < j") auto

lemma binade_upper:
  assumes "0 < a"
  shows "a < two_pow (binade a + 1)"
proof -
  define p where "p = fst (quotient_of a)"
  define d where "d = snd (quotient_of a)"
  have q: "quotient_of a = (p, d)" by (simp add: p_def d_def)
  have d: "0 < d" using quotient_of_denom_pos [OF q] .
  have a: "a = of_int p / of_int d" using quotient_of_div [OF q] .
  have p: "0 < p" using assms d unfolding a by (simp add: zero_less_divide_iff)
  define k where "k = bitlen p - bitlen d"
  have b: "binade a = (if two_pow k \<le> a then k else k - 1)"
    by (simp add: binade_def Let_def p_def d_def k_def)
  have pu: "p < 2 ^ nat (bitlen p)" using bitlen_bounds [OF p] by simp
  have dl: "2 ^ nat (bitlen d - 1) \<le> d" using bitlen_bounds [OF d] by simp
  have bp: "1 \<le> bitlen p" using p by (simp add: bitlen_def floorlog_def)
  have bd: "1 \<le> bitlen d" using d by (simp add: bitlen_def floorlog_def)
  have pr: "(of_int p :: rat) < 2 ^ nat (bitlen p)"
    using pu by (metis of_int_less_iff of_int_numeral of_int_power)
  have dr: "(2 ^ nat (bitlen d - 1) :: rat) \<le> of_int d"
    using dl by (metis of_int_le_iff of_int_numeral of_int_power)
  have "a < 2 ^ nat (bitlen p) / of_int d"
    unfolding a using pr d by (simp add: divide_strict_right_mono)
  also have "\<dots> \<le> 2 ^ nat (bitlen p) / 2 ^ nat (bitlen d - 1)"
    by (rule frac_le) (use dr in simp_all)
  also have "(2 ^ nat (bitlen p) :: rat) = two_pow (bitlen p)"
    using bp by (simp add: two_pow_def)
  also have "(2 ^ nat (bitlen d - 1) :: rat) = two_pow (bitlen d - 1)"
    using bd by (simp add: two_pow_def)
  also have "two_pow (bitlen p) / two_pow (bitlen d - 1) = two_pow (k + 1)"
    unfolding k_def by (simp add: two_pow_diff [symmetric] algebra_simps)
  finally have "a < two_pow (k + 1)" .
  then show ?thesis unfolding b by (simp add: not_le)
qed

lemma ulp_pos: "0 < ulp a"
  by (simp add: ulp_def two_pow_pos)

lemma to_double_pos_unfold:
  assumes "0 < q"
  shows "to_double q =
           (if two_pow 1024 \<le> of_int (round_half_even (q / ulp q)) * ulp q then PInf
            else Num (of_int (round_half_even (q / ulp q)) * ulp q))"
  using assms by (simp add: to_double_def Let_def ulp_def)

lemma round_abs_error:
  assumes "0 < q"
  shows "\<bar>of_int (round_half_even (q / ulp q)) * ulp q - q\<bar> \<le> ulp q / 2"
proof -
  define m where "m = round_half_even (q / ulp q)"
  have u: "0 < ulp q" by (rule ulp_pos)
  have "\<bar>of_int m - q / ulp q\<bar> \<le> 1 / 2"
    using round_half_even_bounds [of "q / ulp q"] unfolding m_def by linarith
  then have "\<bar>of_int m - q / ulp q\<bar> * ulp q \<le> 1 / 2 * ulp q"
    using u by (simp add: mult_right_mono)
  moreover have "\<bar>of_int m - q / ulp q\<bar> * ulp q = \<bar>of_int m * ulp q - q\<bar>"
  proof -
    have "\<bar>of_int m - q / ulp q\<bar> * ulp q = \<bar>(of_int m - q / ulp q) * ulp q\<bar>"
      using u by (simp add: abs_mult)
    also have "(of_int m - q / ulp q) * ulp q = of_int m * ulp q - q"
      using u by (simp add: algebra_simps)
    finally show ?thesis .
  qed
  ultimately show ?thesis unfolding m_def by simp
qed

lemma ulp_normal:
  assumes "two_pow (- 1022) \<le> q"
  shows "ulp q \<le> q / 2 ^ 52"
proof -
  have q: "0 < q" using assms two_pow_pos [of "- 1022"] by linarith
  have "two_pow (- 1022) < two_pow (binade q + 1)"
    using assms binade_upper [OF q] by linarith
  then have "- 1022 \<le> binade q" using two_pow_less_cancel by fastforce
  then have "ulp q = two_pow (binade q - 52)" by (simp add: ulp_def max_def)
  moreover have t52: "two_pow 52 = 2 ^ 52" by (simp add: two_pow_def)
  ultimately have "ulp q = two_pow (binade q) / 2 ^ 52" by (simp only: two_pow_diff)
  moreover have "two_pow (binade q) / 2 ^ 52 \<le> q / 2 ^ 52"
    using binade_lower [OF q] by (simp add: divide_right_mono)
  ultimately show ?thesis by simp
qed

lemma to_double_normal:
  assumes "two_pow (- 1022) \<le> q" and "q \<le> 2 ^ 64"
  shows "\<exists>v. to_double q = Num v \<and> \<bar>v - q\<bar> \<le> q / 2 ^ 53 \<and> 0 < v"
proof -
  have q: "0 < q" using assms two_pow_pos [of "- 1022"] by linarith
  define v where "v = of_int (round_half_even (q / ulp q)) * ulp q"
  have "\<bar>v - q\<bar> \<le> ulp q / 2" unfolding v_def by (rule round_abs_error [OF q])
  also have "\<dots> \<le> (q / 2 ^ 52) / 2" using ulp_normal [OF assms(1)] by simp
  also have "\<dots> = q / 2 ^ 53" by simp
  finally have err: "\<bar>v - q\<bar> \<le> q / 2 ^ 53" .
  have "q / 2 ^ 53 \<le> q / 2" using q by (simp add: frac_le)
  then have v: "q / 2 \<le> v" "v \<le> 2 * q" using err q by linarith+
  have "v < two_pow 1024"
  proof -
    have "v \<le> 2 * 2 ^ 64" using v(2) assms(2) by linarith
    also have "\<dots> < (2::rat) ^ 1024" by simp
    finally show ?thesis by (simp add: two_pow_def)
  qed
  then have "to_double q = Num v"
    unfolding to_double_pos_unfold [OF q] v_def by simp
  moreover have "0 < v" using v(1) q by linarith
  ultimately show ?thesis using err by blast
qed

lemma to_double_neg: "to_double (- q) = num_neg (to_double q)"
proof (cases "q = 0")
  case True
  then show ?thesis by (simp add: to_double_def)
next
  case False
  then show ?thesis by (auto simp: to_double_def Let_def)
qed

lemma to_double_of_int_pos:
  assumes "0 < i" and "i < 2 ^ 53"
  shows "to_double (of_int i) = Num (of_int i)"
proof -
  define q :: rat where "q = of_int i"
  have q: "0 < q" "1 \<le> q" using assms(1) by (simp_all add: q_def)
  have "two_pow (binade q) \<le> q" by (rule binade_lower [OF q(1)])
  also have "q < 2 ^ 53" unfolding q_def using assms(2)
    by (metis of_int_less_iff of_int_numeral of_int_power)
  finally have "two_pow (binade q) < two_pow 53" by (simp add: two_pow_def)
  then have hi: "binade q < 53" by (rule two_pow_less_cancel)
  have "two_pow 0 \<le> q" using q(2) by (simp add: two_pow_def)
  also have "q < two_pow (binade q + 1)" by (rule binade_upper [OF q(1)])
  finally have lo: "0 \<le> binade q" using two_pow_less_cancel by fastforce
  define n where "n = nat (52 - binade q)"
  have u: "ulp q = 1 / 2 ^ n"
    using lo hi by (simp add: ulp_def max_def two_pow_def n_def)
  have "q / ulp q = of_int (i * 2 ^ n)" unfolding u by (simp add: q_def)
  then have "round_half_even (q / ulp q) = i * 2 ^ n"
    by (simp only: round_half_even_of_int)
  then have v: "of_int (round_half_even (q / ulp q)) * ulp q = q"
    unfolding u by (simp add: q_def)
  have "q < two_pow 1024"
  proof -
    have "q < 2 ^ 53" by fact
    also have "\<dots> < (2::rat) ^ 1024" by simp
    finally show ?thesis by (simp add: two_pow_def)
  qed
  then show ?thesis unfolding q_def [symmetric] to_double_pos_unfold [OF q(1)] v by simp
qed

lemma to_double_of_int:
  assumes "\<bar>i\<bar> < 2 ^ 53"
  shows "to_double (of_int i) = Num (of_int i)"
proof -
  consider "i = 0" | "0 < i" | "i < 0" by linarith
  then show ?thesis
  proof cases
    case 1
    then show ?thesis by (simp add: to_double_def)
  next
    case 2
    then show ?thesis using assms by (simp add: to_double_of_int_pos)
  next
    case 3
    then have "to_double (of_int (- i)) = Num (of_int (- i))"
      using assms by (intro to_double_of_int_pos) simp_all
    then have "num_neg (to_double (of_int i)) = Num (- of_int i)"
      by (simp add: to_double_neg)
    then show ?thesis by (cases "to_double (of_int i)") simp_all
  qed
qed

lemma digits_of_small: "n < 10 \<Longrightarrow> digits_of n = [digit_char n]"
  by (subst digits_of.simps) simp

lemma digits_of_large:
  "10 \<le> n \<Longrightarrow> digits_of n = digits_of (n div 10) @ [digit_char (n mod 10)]"
  by (subst digits_of.simps) simp

lemma digits_of_nonempty: "digits_of n \<noteq> []"
  by (subst digits_of.simps) simp

text \<open>The padded digits with the point in place: integer part, point, tenths.\<close>

lemma fixed_digits:
  "(let m = digits_of n;
        m' = (if length m \<le> 1 then replicate (2 - length m) (CHR ''0'') @ m else m);
        k = length m'
    in take (k - 1) m' @ ''.'' @ drop (k - 1) m')
   = digits_of (n div 10) @ ''.'' @ [digit_char (n mod 10)]"
proof (cases "n < 10")
  case True
  then have "n div 10 = 0" "n mod 10 = n" by simp_all
  then show ?thesis
    using True by (simp add: digits_of_small Let_def digit_char_def)
next
  case False
  then have d: "digits_of n = digits_of (n div 10) @ [digit_char (n mod 10)]"
    by (simp add: digits_of_large)
  have "length (digits_of (n div 10)) \<noteq> 0" using digits_of_nonempty by simp
  then show ?thesis unfolding d Let_def by simp
qed

lemma toFixed1_nonneg:
  assumes "0 \<le> q" and "q < 10 ^ 21"
  shows "toFixed1 (Num q) =
           Str (digits_of (nat \<lfloor>q * 10 + 1 / 2\<rfloor> div 10) @ ''.'' @
                [digit_char (nat \<lfloor>q * 10 + 1 / 2\<rfloor> mod 10)])"
proof -
  have "\<not> q < 0" "\<bar>q\<bar> = q" "\<not> 10 ^ 21 \<le> q" using assms by simp_all
  then show ?thesis
    unfolding toFixed1_def number.case using fixed_digits [of "nat \<lfloor>q * 10 + 1 / 2\<rfloor>"]
    by (simp add: Let_def)
qed

lemma toFixed1_neg:
  assumes "q < 0" and "- q < 10 ^ 21"
  shows "toFixed1 (Num q) =
           Str (''-'' @ digits_of (nat \<lfloor>- q * 10 + 1 / 2\<rfloor> div 10) @ ''.'' @
                [digit_char (nat \<lfloor>- q * 10 + 1 / 2\<rfloor> mod 10)])"
proof -
  have "\<bar>q\<bar> = - q" "\<not> 10 ^ 21 \<le> - q" using assms by simp_all
  then show ?thesis
    unfolding toFixed1_def number.case using assms(1) fixed_digits [of "nat \<lfloor>- q * 10 + 1 / 2\<rfloor>"]
    by (simp add: Let_def)
qed

text \<open>The integer nearest to ten times a nonnegative rational, ties upward.\<close>

lemma nearest_tenth_error:
  assumes "0 \<le> x"
  shows "\<bar>of_nat (nat \<lfloor>x * 10 + 1 / 2\<rfloor>) - x * 10\<bar> \<le> (1 / 2 :: rat)"
proof -
  have "0 \<le> \<lfloor>x * 10 + 1 / 2\<rfloor>" using assms by simp
  then have "(of_nat (nat \<lfloor>x * 10 + 1 / 2\<rfloor>) :: rat) = of_int \<lfloor>x * 10 + 1 / 2\<rfloor>"
    by simp
  moreover have "of_int \<lfloor>x * 10 + 1 / 2\<rfloor> \<le> x * 10 + 1 / 2"
    "x * 10 + 1 / 2 < of_int \<lfloor>x * 10 + 1 / 2\<rfloor> + 1"
    by linarith+
  ultimately show ?thesis by linarith
qed

lemma rel_bounds:
  fixes v q :: rat
  assumes "\<bar>v - q\<bar> \<le> q / 2 ^ 53" and "0 < q"
  shows "q / 2 \<le> v" and "v \<le> 2 * q"
proof -
  have "q / 2 ^ 53 \<le> q / 2" using assms(2) by (simp add: frac_le)
  then show "q / 2 \<le> v" and "v \<le> 2 * q" using assms by linarith+
qed

text \<open>
  Two roundings, of a quotient and of its product with a constant, keep the result
  within three parts in \<open>2^53\<close> of the exact value.
\<close>

lemma quotient_times_error:
  fixes C T k :: rat
  assumes "1 \<le> C" "C \<le> 2 ^ 32" "1 \<le> T" "T < 2 ^ 53"
  shows "\<exists>x1 x2. to_double (C / T) = Num x1 \<and> to_double (x1 * 100) = Num x2
           \<and> 0 < x2 \<and> x2 < 10 ^ 21
           \<and> \<bar>x2 * T - 100 * C\<bar> \<le> 300 * C / 2 ^ 53"
proof -
  define q1 where "q1 = C / T"
  have T: "0 < T" using assms by linarith
  have q1T: "q1 * T = C" using T by (simp add: q1_def)
  have q1_lo: "1 / 2 ^ 53 \<le> q1"
  proof -
    have "1 / 2 ^ 53 \<le> 1 / T" using assms T by (simp add: frac_le)
    also have "\<dots> \<le> C / T" using assms T by (simp add: divide_right_mono)
    finally show ?thesis by (simp add: q1_def)
  qed
  have q1_hi: "q1 \<le> 2 ^ 32"
  proof -
    have "C / T \<le> C / 1" using assms by (intro divide_left_mono) simp_all
    then show ?thesis using assms by (simp add: q1_def)
  qed
  have tiny: "two_pow (- 1022) \<le> 1 / 2 ^ 54" by (simp add: two_pow_def)
  have "two_pow (- 1022) \<le> q1" using tiny q1_lo by simp
  moreover have "q1 \<le> 2 ^ 64" using q1_hi by simp
  ultimately obtain x1 where x1: "to_double q1 = Num x1" "\<bar>x1 - q1\<bar> \<le> q1 / 2 ^ 53" "0 < x1"
    using to_double_normal by blast
  define q2 where "q2 = x1 * 100"
  have q1_pos: "0 < q1" using q1_lo by (simp add: less_le_trans [of 0 "1 / 2 ^ 53"])
  have x1_lo: "q1 / 2 \<le> x1" and x1_hi: "x1 \<le> 2 * q1"
    using rel_bounds [OF x1(2) q1_pos] by simp_all
  have "two_pow (- 1022) \<le> q2" using tiny x1_lo q1_lo by (simp add: q2_def)
  moreover have "q2 \<le> 2 ^ 64" using x1_hi q1_hi by (simp add: q2_def)
  ultimately obtain x2 where x2: "to_double q2 = Num x2" "\<bar>x2 - q2\<bar> \<le> q2 / 2 ^ 53" "0 < x2"
    using to_double_normal by blast
  have q2_pos: "0 < q2" using x1(3) by (simp add: q2_def)
  have x2_le: "x2 \<le> 2 * q2" using rel_bounds [OF x2(2) q2_pos] by simp
  have q2_le: "q2 \<le> 200 * q1" using x1_hi by (simp add: q2_def)
  have x2_hi: "x2 < 10 ^ 21"
  proof -
    have "x2 \<le> 400 * 2 ^ 32" using x2_le q2_le q1_hi by linarith
    also have "\<dots> < (10::rat) ^ 21" by simp
    finally show ?thesis .
  qed
  define eps where "eps = q1 / 2 ^ 53"
  have e1: "\<bar>x1 - q1\<bar> \<le> eps" using x1(2) by (simp add: eps_def)
  have "q2 / 2 ^ 53 \<le> 200 * q1 / 2 ^ 53" using q2_le by (simp add: divide_right_mono)
  then have e2: "\<bar>x2 - q2\<bar> \<le> 200 * eps" using x2(2) by (simp add: eps_def)
  have "\<bar>x2 - 100 * q1\<bar> \<le> 300 * eps"
    using e1 e2 unfolding q2_def by linarith
  then have "\<bar>x2 - 100 * q1\<bar> \<le> 300 * q1 / 2 ^ 53" by (simp add: eps_def)
  then have "\<bar>x2 - 100 * q1\<bar> * T \<le> 300 * q1 / 2 ^ 53 * T"
    using T by (simp add: mult_right_mono)
  moreover have "\<bar>x2 - 100 * q1\<bar> * T = \<bar>x2 * T - 100 * C\<bar>"
  proof -
    have "\<bar>x2 - 100 * q1\<bar> * T = \<bar>(x2 - 100 * q1) * T\<bar>" using T by (simp add: abs_mult)
    also have "(x2 - 100 * q1) * T = x2 * T - 100 * (q1 * T)" by (simp add: algebra_simps)
    finally show ?thesis by (simp add: q1T)
  qed
  moreover have "300 * q1 / 2 ^ 53 * T = 300 * C / 2 ^ 53"
    unfolding q1T [symmetric] by simp
  ultimately have "\<bar>x2 * T - 100 * C\<bar> \<le> 300 * C / 2 ^ 53" by (simp only:)
  then show ?thesis using x1(1) x2(1,3) x2_hi unfolding q1_def q2_def by blast
qed

text \<open>
  When \<open>x\<close> is close enough to the fraction \<open>a / t\<close>, the integer nearest to \<open>10 x\<close> is an
  integer nearest to \<open>10 a / t\<close>: two integers that differ by less than \<open>t + 1\<close> differ
  by at most \<open>t\<close>.
\<close>

lemma nearest_tenth_exact:
  fixes x :: rat and a t :: int
  assumes "0 < t" and "0 \<le> x" and "\<bar>x * of_int t - of_int a\<bar> < 1 / 20"
  shows "\<bar>of_nat (nat \<lfloor>x * 10 + 1 / 2\<rfloor>) / 10 - of_int a / of_int t\<bar> \<le> (1 / 20 :: rat)"
proof -
  define n where "n = nat \<lfloor>x * 10 + 1 / 2\<rfloor>"
  define T :: rat where "T = of_int t"
  have T: "0 < T" using assms(1) by (simp add: T_def)
  have "\<bar>of_nat n - x * 10\<bar> \<le> (1 / 2 :: rat)"
    unfolding n_def by (rule nearest_tenth_error [OF assms(2)])
  then have "\<bar>of_nat n - x * 10\<bar> * T \<le> 1 / 2 * T" using T by (simp add: mult_right_mono)
  moreover have "\<bar>of_nat n - x * 10\<bar> * T = \<bar>of_nat n * T - 10 * (x * T)\<bar>"
  proof -
    have "\<bar>of_nat n - x * 10\<bar> * T = \<bar>(of_nat n - x * 10) * T\<bar>" using T by (simp add: abs_mult)
    then show ?thesis by (simp add: algebra_simps)
  qed
  ultimately have a: "\<bar>of_nat n * T - 10 * (x * T)\<bar> \<le> T / 2" by simp
  have b: "\<bar>x * T - of_int a\<bar> < 1 / 20" using assms(3) by (simp add: T_def)
  have "\<bar>2 * of_nat n * T - 20 * of_int a\<bar> < T + 1" using a b by linarith
  then have "\<bar>(of_int (2 * int n * t - 20 * a) :: rat)\<bar> < of_int (t + 1)"
    by (simp add: T_def)
  then have "\<bar>2 * int n * t - 20 * a\<bar> < t + 1"
    by (metis of_int_abs of_int_less_iff)
  then have "\<bar>2 * int n * t - 20 * a\<bar> \<le> t" by linarith
  then have "\<bar>(of_int (2 * int n * t - 20 * a) :: rat)\<bar> \<le> of_int t"
    by (metis of_int_abs of_int_le_iff)
  then have c: "\<bar>2 * of_nat n * T - 20 * of_int a\<bar> \<le> T" by (simp add: T_def)
  have "of_nat n / 10 - of_int a / T = (2 * of_nat n * T - 20 * of_int a) / (20 * T)"
    using T by (simp add: field_simps)
  then have "\<bar>of_nat n / 10 - of_int a / T\<bar> = \<bar>2 * of_nat n * T - 20 * of_int a\<bar> / (20 * T)"
    using T by (simp add: abs_divide)
  also have "\<dots> \<le> T / (20 * T)" using c T by (simp add: divide_right_mono)
  also have "\<dots> = 1 / 20" using T by simp
  finally show ?thesis unfolding n_def T_def .
qed

lemma totalYears_exact:
  assumes "startYear \<le> endYear" and "endYear - startYear + 1 < 2 ^ 53"
  shows "num_add (num_sub (number_of endYear) (number_of startYear)) (Num 1)
           = Num (of_int (endYear - startYear + 1))"
proof -
  have "num_sub (number_of endYear) (number_of startYear)
          = to_double (of_int (endYear - startYear))"
    by (simp add: num_sub_def number_of_def)
  also have "\<dots> = Num (of_int (endYear - startYear))"
    using assms by (intro to_double_of_int) simp
  finally have "num_add (num_sub (number_of endYear) (number_of startYear)) (Num 1)
          = to_double (of_int (endYear - startYear + 1))"
    by simp
  also have "\<dots> = Num (of_int (endYear - startYear + 1))"
    using assms by (intro to_double_of_int) simp
  finally show ?thesis .
qed

lemma frequency_unfold:
  "frequency (calculateStatistics this years startYear endYear)
     = toFixed1 (num_mul (num_div (number_of (int (length years)))
                   (num_add (num_sub (number_of endYear) (number_of startYear)) (Num 1)))
                 (Num 100))"
  by (simp add: calculateStatistics_def Let_def)

text \<open>
  Claim C7, as stated: the frequency equals \<open>count / (end - start + 1) * 100\<close> rounded to
  one decimal place. For three years in a range of 2000 the exact percentage is 0.15,
  which rounds to 0.2 by either rule for a tie; the quotient and the product are rounded
  to doubles first, the double nearest to 0.15 lies below it, and \<^verbatim>\<open>toFixed(1)\<close> prints
  "0.1".
\<close>

theorem frequency_tie_counterexample:
  "frequency (calculateStatistics (new_ChristmasSundayFinder 2026) [2005, 2011, 2016] 1001 3000)
     = Str ''0.1''
   \<and> (of_nat (length [2005, 2011, 2016 :: int]) / of_int (3000 - 1001 + 1) * 100 :: rat) = 15 / 100
   \<and> one_decimal round_half_up (15 / 100) = ''0.2''
   \<and> one_decimal round_half_even (15 / 100) = ''0.2''"
proof -
  have t: "num_add (num_sub (number_of 3000) (number_of 1001)) (Num 1) = Num 2000"
    using totalYears_exact [of 1001 3000] by simp
  have c: "number_of (int (length [2005, 2011, 2016 :: int])) = Num 3"
    by (simp add: number_of_def)
  have d: "num_div (Num 3) (Num 2000) = Num (3458764513820541 / 2305843009213693952)"
    by code_simp
  have m: "num_mul (Num (3458764513820541 / 2305843009213693952)) (Num 100)
             = Num (5404319552844595 / 36028797018963968)"
    by code_simp
  have f: "toFixed1 (Num (5404319552844595 / 36028797018963968)) = Str ''0.1''"
    by code_simp
  have one: "frequency (calculateStatistics (new_ChristmasSundayFinder 2026)
                          [2005, 2011, 2016] 1001 3000) = Str ''0.1''"
    unfolding frequency_unfold t c d m f ..
  have two: "(of_nat (length [2005, 2011, 2016 :: int]) / of_int (3000 - 1001 + 1) * 100 :: rat)
               = 15 / 100"
    by simp
  have three: "one_decimal round_half_up (15 / 100) = ''0.2''" by code_simp
  have four: "one_decimal round_half_even (15 / 100) = ''0.2''" by code_simp
  show ?thesis using one two three four by (simp only:)
qed

text \<open>
  Claim C7, amended: for every year list of fewer than \<open>2^32\<close> elements (the length a
  JavaScript array can have) and every range \<open>start \<le> end\<close> of fewer than \<open>2^53\<close> years,
  the frequency that \<open>calculateStatistics\<close> returns is a numeral with one fraction digit
  that is nearest to \<open>count / (end - start + 1) * 100\<close>: it differs from the exact
  percentage by at most 0.05. When the exact percentage lies midway between two such
  numerals, either of them can be the result.
\<close>

theorem frequency_nearest_tenth:
  assumes "startYear \<le> endYear" and "endYear - startYear + 1 < 2 ^ 53"
    and "length years < 2 ^ 32"
  shows "\<exists>n. frequency (calculateStatistics this years startYear endYear)
               = Str (digits_of (n div 10) @ ''.'' @ [digit_char (n mod 10)])
             \<and> \<bar>of_nat n / 10
                 - of_nat (length years) / of_int (endYear - startYear + 1) * 100\<bar>
               \<le> (1 / 20 :: rat)"
proof -
  define t where "t = endYear - startYear + 1"
  define T :: rat where "T = of_int t"
  define C :: rat where "C = of_nat (length years)"
  have t: "0 < t" "t < 2 ^ 53" using assms by (simp_all add: t_def)
  have T: "1 \<le> T" "T < 2 ^ 53" "T \<noteq> 0"
  proof -
    show "1 \<le> T" using t(1) by (simp add: T_def)
    show "T < 2 ^ 53" unfolding T_def using t(2)
      by (metis of_int_less_iff of_int_numeral of_int_power)
    show "T \<noteq> 0" using t(1) by (simp add: T_def)
  qed
  have f: "frequency (calculateStatistics this years startYear endYear)
             = toFixed1 (num_mul (num_div (Num C) (Num T)) (Num 100))"
    unfolding calculateStatistics_def Let_def totalYears_exact [OF assms(1,2)]
    by (simp add: number_of_def C_def T_def t_def)
  show ?thesis
  proof (cases "length years = 0")
    case True
    then have C0: "C = 0" by (simp add: C_def)
    have "toFixed1 (num_mul (num_div (Num C) (Num T)) (Num 100)) = toFixed1 (Num 0)"
      using T(3) by (simp add: C0 to_double_0)
    also have "\<dots> = Str (digits_of (0 div 10) @ ''.'' @ [digit_char (0 mod 10)])"
      using toFixed1_nonneg [of 0] by simp
    finally show ?thesis unfolding f using True by (intro exI [of _ 0]) simp
  next
    case False
    then have C: "1 \<le> C" unfolding C_def by (simp add: Suc_le_eq)
    have "C \<le> of_nat (2 ^ 32)" unfolding C_def using assms(3) by (simp only: of_nat_le_iff)
    then have C': "C \<le> 2 ^ 32" by simp
    obtain x1 x2 where x: "to_double (C / T) = Num x1" "to_double (x1 * 100) = Num x2"
        "0 < x2" "x2 < 10 ^ 21" "\<bar>x2 * T - 100 * C\<bar> \<le> 300 * C / 2 ^ 53"
      using quotient_times_error [OF C C' T(1,2)] by blast
    define n where "n = nat \<lfloor>x2 * 10 + 1 / 2\<rfloor>"
    have "toFixed1 (num_mul (num_div (Num C) (Num T)) (Num 100)) = toFixed1 (Num x2)"
      using T(3) x(1,2) by simp
    also have "\<dots> = Str (digits_of (n div 10) @ ''.'' @ [digit_char (n mod 10)])"
      unfolding n_def using x(3,4) by (intro toFixed1_nonneg) simp_all
    finally have one: "frequency (calculateStatistics this years startYear endYear)
        = Str (digits_of (n div 10) @ ''.'' @ [digit_char (n mod 10)])"
      unfolding f .
    have "300 * C / 2 ^ 53 \<le> 300 * 2 ^ 32 / (2 ^ 53 :: rat)"
      using C' by (simp add: divide_right_mono)
    also have "\<dots> < 1 / 20" by simp
    finally have "\<bar>x2 * T - 100 * C\<bar> < 1 / 20" using x(5) by linarith
    then have "\<bar>x2 * of_int t - of_int (100 * int (length years))\<bar> < 1 / 20"
      by (simp add: T_def C_def)
    from nearest_tenth_exact [OF t(1) _ this] x(3)
    have "\<bar>of_nat n / 10 - of_int (100 * int (length years)) / of_int t\<bar> \<le> (1 / 20 :: rat)"
      unfolding n_def by simp
    moreover have "(of_int (100 * int (length years)) :: rat) / of_int t
        = of_nat (length years) / of_int (endYear - startYear + 1) * 100"
      by (simp add: t_def)
    ultimately have two: "\<bar>of_nat n / 10
        - of_nat (length years) / of_int (endYear - startYear + 1) * 100\<bar> \<le> (1 / 20 :: rat)"
      by (simp only:)
    show ?thesis using one two by blast
  qed
qed

theorem frequency_nearest_tenth_witness:
  "(2000::int) \<le> 2025 \<and> (2025::int) - 2000 + 1 < 2 ^ 53
   \<and> length [2005, 2011, 2016, 2022 :: int] < 2 ^ 32
   \<and> (\<exists>n. frequency (calculateStatistics (new_ChristmasSundayFinder 2026)
                         [2005, 2011, 2016, 2022] 2000 2025)
               = Str (digits_of (n div 10) @ ''.'' @ [digit_char (n mod 10)])
             \<and> \<bar>of_nat n / 10
                 - of_nat (length [2005, 2011, 2016, 2022 :: int]) / of_int (2025 - 2000 + 1) * 100\<bar>
               \<le> (1 / 20 :: rat))"
  using frequency_nearest_tenth [of 2000 2025 "[2005, 2011, 2016, 2022]" "new_ChristmasSundayFinder 2026"]
  by simp

lemma quotient_error:
  fixes S K :: rat
  assumes "1 \<le> S" "S \<le> 2 ^ 48" "1 \<le> K" "K < 2 ^ 32"
  shows "\<exists>x. to_double (S / K) = Num x \<and> 0 < x \<and> x < 10 ^ 21
           \<and> \<bar>x * K - S\<bar> \<le> S / 2 ^ 53"
proof -
  define q where "q = S / K"
  have K: "0 < K" using assms by linarith
  have qK: "q * K = S" using K by (simp add: q_def)
  have q_lo: "1 / 2 ^ 32 \<le> q"
  proof -
    have "1 / 2 ^ 32 \<le> 1 / K" using assms K by (simp add: frac_le)
    also have "\<dots> \<le> S / K" using assms K by (simp add: divide_right_mono)
    finally show ?thesis by (simp add: q_def)
  qed
  have q_hi: "q \<le> 2 ^ 48"
  proof -
    have "S / K \<le> S / 1" using assms by (intro divide_left_mono) simp_all
    then show ?thesis using assms by (simp add: q_def)
  qed
  have q_pos: "0 < q" using q_lo by (simp add: less_le_trans [of 0 "1 / 2 ^ 32"])
  have tiny: "two_pow (- 1022) \<le> 1 / 2 ^ 32" by (simp add: two_pow_def)
  have "two_pow (- 1022) \<le> q" using tiny q_lo by simp
  moreover have "q \<le> 2 ^ 64" using q_hi by simp
  ultimately obtain x where x: "to_double q = Num x" "\<bar>x - q\<bar> \<le> q / 2 ^ 53" "0 < x"
    using to_double_normal by blast
  have x_hi: "x < 10 ^ 21"
  proof -
    have "x \<le> 2 * 2 ^ 48" using rel_bounds(2) [OF x(2) q_pos] q_hi by linarith
    also have "\<dots> < (10::rat) ^ 21" by simp
    finally show ?thesis .
  qed
  have "\<bar>x - q\<bar> * K \<le> q / 2 ^ 53 * K" using x(2) K by (simp add: mult_right_mono)
  moreover have "\<bar>x - q\<bar> * K = \<bar>x * K - S\<bar>"
  proof -
    have "\<bar>x - q\<bar> * K = \<bar>(x - q) * K\<bar>" using K by (simp add: abs_mult)
    also have "(x - q) * K = x * K - q * K" by (simp add: algebra_simps)
    finally show ?thesis by (simp add: qK)
  qed
  moreover have "q / 2 ^ 53 * K = S / 2 ^ 53" unfolding qK [symmetric] by simp
  ultimately have "\<bar>x * K - S\<bar> \<le> S / 2 ^ 53" by (simp only:)
  then show ?thesis using x(1,3) x_hi unfolding q_def by blast
qed

lemma gaps_loop_map:
  "gaps_loop years i gaps =
     gaps @ map (\<lambda>j. num_sub (number_of (years ! j)) (number_of (years ! (j - 1))))
              [i..<length years]"
proof (induction years i gaps rule: gaps_loop.induct)
  case (1 years i gaps)
  show ?case
  proof (cases "i < length years")
    case True
    then have u: "[i..<length years] = i # [i + 1..<length years]"
      by (simp add: upt_conv_Cons)
    show ?thesis using True "1.IH" by (subst gaps_loop.simps) (simp add: u)
  next
    case False
    then show ?thesis by (subst gaps_loop.simps) simp
  qed
qed

lemma differences_telescope:
  fixes ys :: "int list"
  shows "j < length ys \<Longrightarrow>
         sum_list (map (\<lambda>i. ys ! i - ys ! (i - 1)) [1..<Suc j]) = ys ! j - ys ! 0"
  by (induction j) simp_all

lemma sum_consecutive_differences:
  assumes "ys \<noteq> []"
  shows "sum_list (consecutive_differences ys) = last ys - hd ys"
proof -
  obtain j where j: "length ys = Suc j" using assms by (cases ys) simp_all
  then have "sum_list (consecutive_differences ys) = ys ! j - ys ! 0"
    unfolding consecutive_differences_def using differences_telescope [of j ys] by simp
  moreover have "ys ! j = last ys" using j assms by (simp add: last_conv_nth)
  moreover have "ys ! 0 = hd ys" using assms by (simp add: hd_conv_nth)
  ultimately show ?thesis by simp
qed

lemma gap_exact:
  assumes "\<forall>y \<in> set ys. \<bar>y\<bar> \<le> 2 ^ 47" and "j < length ys"
  shows "num_sub (number_of (ys ! j)) (number_of (ys ! (j - 1)))
           = Num (of_int (ys ! j - ys ! (j - 1)))"
proof -
  have a: "\<bar>ys ! j\<bar> \<le> 2 ^ 47" using assms by simp
  have "j - 1 < length ys" using assms(2) by simp
  then have b: "\<bar>ys ! (j - 1)\<bar> \<le> 2 ^ 47" using assms(1) by simp
  have "\<bar>ys ! j - ys ! (j - 1)\<bar> < 2 ^ 53" using a b by simp
  then have "to_double (of_int (ys ! j - ys ! (j - 1))) = Num (of_int (ys ! j - ys ! (j - 1)))"
    by (rule to_double_of_int)
  then show ?thesis by (simp add: num_sub_def number_of_def)
qed

lemma sum_gaps_exact:
  assumes "\<forall>y \<in> set ys. \<bar>y\<bar> \<le> 2 ^ 47"
  shows "Suc j \<le> length ys \<Longrightarrow>
         foldl num_add (Num 0)
           (map (\<lambda>j. num_sub (number_of (ys ! j)) (number_of (ys ! (j - 1)))) [1..<Suc j])
         = Num (of_int (ys ! j - ys ! 0))"
proof (induction j)
  case 0
  then show ?case by simp
next
  case (Suc j)
  then have IH: "foldl num_add (Num 0)
           (map (\<lambda>j. num_sub (number_of (ys ! j)) (number_of (ys ! (j - 1)))) [1..<Suc j])
         = Num (of_int (ys ! j - ys ! 0))"
    by simp
  have g: "num_sub (number_of (ys ! Suc j)) (number_of (ys ! (Suc j - 1)))
           = Num (of_int (ys ! Suc j - ys ! j))"
    using gap_exact [OF assms, of "Suc j"] Suc.prems by simp
  have a: "\<bar>ys ! Suc j\<bar> \<le> 2 ^ 47" using assms Suc.prems by simp
  have "0 < length ys" using Suc.prems by linarith
  then have "ys ! 0 \<in> set ys" by (rule nth_mem)
  then have b: "\<bar>ys ! 0\<bar> \<le> 2 ^ 47" using assms by blast
  have "\<bar>ys ! Suc j - ys ! 0\<bar> < 2 ^ 53" using a b by simp
  then have e: "to_double (of_int (ys ! Suc j - ys ! 0)) = Num (of_int (ys ! Suc j - ys ! 0))"
    by (rule to_double_of_int)
  have "(of_int (ys ! j - ys ! 0) :: rat) + of_int (ys ! Suc j - ys ! j)
          = of_int (ys ! Suc j - ys ! 0)"
    by simp
  then have "num_add (Num (of_int (ys ! j - ys ! 0))) (Num (of_int (ys ! Suc j - ys ! j)))
          = Num (of_int (ys ! Suc j - ys ! 0))"
    using e by (simp only: num_add.simps)
  then show ?case
    using IH g by (simp only: upt_Suc_append [of 1 "Suc j"] map_append foldl_append) simp
qed

lemma gap_short:
  assumes "length years < 2"
  shows "gap (calculateStatistics this years startYear endYear) = Str ''-''"
proof -
  have "[1..<length years] = []" using assms by simp
  then have "gaps_loop years 1 [] = []" by (simp add: gaps_loop_map)
  then show ?thesis by (simp add: calculateStatistics_def Let_def)
qed

lemma gap_long:
  assumes "length years = Suc j" and "0 < j"
    and "\<forall>y \<in> set years. \<bar>y\<bar> \<le> 2 ^ 47"
  shows "gap (calculateStatistics this years startYear endYear)
           = toFixed1 (to_double (of_int (years ! j - years ! 0) / of_nat j))"
    and "mean (consecutive_differences years) = of_int (years ! j - years ! 0) / of_nat j"
    and "\<bar>years ! j - years ! 0\<bar> \<le> 2 ^ 48"
proof -
  let ?G = "\<lambda>j. num_sub (number_of (years ! j)) (number_of (years ! (j - 1)))"
  have g: "gaps_loop years 1 [] = map ?G [1..<Suc j]"
    by (simp add: gaps_loop_map assms(1))
  have len: "length (gaps_loop years 1 []) = j" unfolding g by simp
  have sum: "foldl num_add (Num 0) (gaps_loop years 1 []) = Num (of_int (years ! j - years ! 0))"
    unfolding g using sum_gaps_exact [OF assms(3), of j] assms(1) by simp
  have "of_nat j \<noteq> (0::rat)" using assms(2) by simp
  then have "num_div (Num (of_int (years ! j - years ! 0))) (number_of (int j))
          = to_double (of_int (years ! j - years ! 0) / of_nat j)"
    by (simp add: number_of_def)
  moreover have "gap (calculateStatistics this years startYear endYear)
      = (if length (gaps_loop years 1 []) > 0
         then toFixed1 (num_div (foldl num_add (Num 0) (gaps_loop years 1 []))
                                (number_of (int (length (gaps_loop years 1 [])))))
         else Str ''-'')"
    by (simp add: calculateStatistics_def Let_def)
  ultimately show "gap (calculateStatistics this years startYear endYear)
           = toFixed1 (to_double (of_int (years ! j - years ! 0) / of_nat j))"
    using assms(2) by (simp only: len sum if_True)
  have "length (consecutive_differences years) = j"
    by (simp add: consecutive_differences_def assms(1))
  moreover have "sum_list (consecutive_differences years) = years ! j - years ! 0"
    unfolding consecutive_differences_def assms(1)
    by (rule differences_telescope) (simp add: assms(1))
  ultimately show "mean (consecutive_differences years) = of_int (years ! j - years ! 0) / of_nat j"
    by (simp add: mean_def)
  have "years ! j \<in> set years" "years ! 0 \<in> set years" using assms(1) by simp_all
  then have "\<bar>years ! j\<bar> \<le> 2 ^ 47" "\<bar>years ! 0\<bar> \<le> 2 ^ 47" using assms(3) by blast+
  then show "\<bar>years ! j - years ! 0\<bar> \<le> 2 ^ 48" by simp
qed

text \<open>The printed quotient of a sum of at most \<open>2^48\<close> by a count below \<open>2^32\<close>.\<close>

lemma toFixed1_quotient:
  fixes S :: int and j :: nat
  assumes "\<bar>S\<bar> \<le> 2 ^ 48" and "0 < j" and "j < 2 ^ 32"
  shows "\<exists>n. toFixed1 (to_double (of_int S / of_nat j))
               = Str ((if (of_int S / of_nat j :: rat) < 0 then ''-'' else []) @
                      digits_of (n div 10) @ ''.'' @ [digit_char (n mod 10)])
             \<and> \<bar>of_nat n / 10 - \<bar>of_int S / of_nat j\<bar>\<bar> \<le> (1 / 20 :: rat)"
proof -
  define K :: rat where "K = of_nat j"
  have K: "1 \<le> K" "K < 2 ^ 32" "0 < K"
  proof -
    show "1 \<le> K" using assms(2) by (simp add: K_def Suc_le_eq)
    have "K < of_nat (2 ^ 32)" unfolding K_def using assms(3) by (simp only: of_nat_less_iff)
    then show "K < 2 ^ 32" by simp
    show "0 < K" using assms(2) by (simp add: K_def)
  qed
  have pos: "\<exists>n. toFixed1 (to_double (of_int A / K))
               = Str (digits_of (n div 10) @ ''.'' @ [digit_char (n mod 10)])
             \<and> toFixed1 (to_double (- (of_int A / K)))
               = Str (''-'' @ digits_of (n div 10) @ ''.'' @ [digit_char (n mod 10)])
             \<and> \<bar>of_nat n / 10 - of_int A / K\<bar> \<le> (1 / 20 :: rat)"
    if A: "0 < A" "A \<le> 2 ^ 48" for A :: int
  proof -
    define S' :: rat where "S' = of_int A"
    have S': "1 \<le> S'" using A(1) by (simp add: S'_def)
    have "S' \<le> of_int (2 ^ 48)" unfolding S'_def using A(2) by (simp only: of_int_le_iff)
    then have S'': "S' \<le> 2 ^ 48" by simp
    obtain x where x: "to_double (S' / K) = Num x" "0 < x" "x < 10 ^ 21"
        "\<bar>x * K - S'\<bar> \<le> S' / 2 ^ 53"
      using quotient_error [OF S' S'' K(1,2)] by blast
    define n where "n = nat \<lfloor>x * 10 + 1 / 2\<rfloor>"
    have one: "toFixed1 (to_double (S' / K))
        = Str (digits_of (n div 10) @ ''.'' @ [digit_char (n mod 10)])"
      unfolding x(1) n_def using x(2,3) by (intro toFixed1_nonneg) simp_all
    have "toFixed1 (Num (- x))
        = Str (''-'' @ digits_of (nat \<lfloor>- (- x) * 10 + 1 / 2\<rfloor> div 10) @ ''.'' @
               [digit_char (nat \<lfloor>- (- x) * 10 + 1 / 2\<rfloor> mod 10)])"
      using x(2,3) by (intro toFixed1_neg) simp_all
    then have two: "toFixed1 (to_double (- (S' / K)))
        = Str (''-'' @ digits_of (n div 10) @ ''.'' @ [digit_char (n mod 10)])"
      by (simp add: to_double_neg x(1) n_def)
    have "S' / 2 ^ 53 \<le> 2 ^ 48 / (2 ^ 53 :: rat)" using S'' by (simp add: divide_right_mono)
    also have "\<dots> < 1 / 20" by simp
    finally have "\<bar>x * K - S'\<bar> < 1 / 20" using x(4) by linarith
    then have "\<bar>x * of_int (int j) - of_int A\<bar> < 1 / 20" by (simp add: K_def S'_def)
    moreover have "0 < int j" using assms(2) by simp
    moreover have "0 \<le> x" using x(2) by simp
    ultimately have "\<bar>of_nat (nat \<lfloor>x * 10 + 1 / 2\<rfloor>) / 10 - of_int A / of_int (int j)\<bar>
        \<le> (1 / 20 :: rat)"
      by (intro nearest_tenth_exact)
    then have three: "\<bar>of_nat n / 10 - of_int A / K\<bar> \<le> (1 / 20 :: rat)"
      by (simp add: n_def K_def)
    show ?thesis using one two three unfolding S'_def by blast
  qed
  consider "S = 0" | "0 < S" | "S < 0" by linarith
  then show ?thesis
  proof cases
    case 1
    have "toFixed1 (Num 0) = Str (digits_of (0 div 10) @ ''.'' @ [digit_char (0 mod 10)])"
      using toFixed1_nonneg [of 0] by simp
    then show ?thesis using 1 by (intro exI [of _ 0]) (simp add: to_double_0)
  next
    case 2
    then have s: "\<not> (of_int S / K < 0)" "\<bar>of_int S / K\<bar> = of_int S / K"
      using K(3) by (simp_all add: divide_less_0_iff)
    obtain n where n: "toFixed1 (to_double (of_int S / K))
               = Str (digits_of (n div 10) @ ''.'' @ [digit_char (n mod 10)])"
        "\<bar>of_nat n / 10 - of_int S / K\<bar> \<le> (1 / 20 :: rat)"
    proof -
      have "S \<le> 2 ^ 48" using assms(1) by simp
      from pos [OF 2 this] show ?thesis using that by blast
    qed
    have f1: "toFixed1 (to_double (of_int S / K))
               = Str ((if of_int S / K < 0 then ''-'' else []) @
                      digits_of (n div 10) @ ''.'' @ [digit_char (n mod 10)])"
      using n(1) s(1) by (simp only: if_False append_Nil)
    have f2: "\<bar>of_nat n / 10 - \<bar>of_int S / K\<bar>\<bar> \<le> (1 / 20 :: rat)"
      using n(2) by (simp only: s(2))
    show ?thesis unfolding K_def [symmetric] using f1 f2 by blast
  next
    case 3
    then have s: "of_int S / K < 0" "\<bar>of_int S / K\<bar> = of_int (- S) / K"
      "of_int S / K = - (of_int (- S) / K)"
      using K(3) by (simp_all add: divide_less_0_iff abs_if)
    have "0 < - S" "- S \<le> 2 ^ 48" using 3 assms(1) by simp_all
    then obtain n where n: "toFixed1 (to_double (- (of_int (- S) / K)))
               = Str (''-'' @ digits_of (n div 10) @ ''.'' @ [digit_char (n mod 10)])"
        "\<bar>of_nat n / 10 - of_int (- S) / K\<bar> \<le> (1 / 20 :: rat)"
      using pos [of "- S"] by blast
    have "toFixed1 (to_double (of_int S / K))
               = Str (''-'' @ digits_of (n div 10) @ ''.'' @ [digit_char (n mod 10)])"
      using n(1) by (simp only: s(3))
    then have f1: "toFixed1 (to_double (of_int S / K))
               = Str ((if of_int S / K < 0 then ''-'' else []) @
                      digits_of (n div 10) @ ''.'' @ [digit_char (n mod 10)])"
      using s(1) by (simp only: if_True)
    have f2: "\<bar>of_nat n / 10 - \<bar>of_int S / K\<bar>\<bar> \<le> (1 / 20 :: rat)"
      using n(2) by (simp only: s(2))
    show ?thesis unfolding K_def [symmetric] using f1 f2 by blast
  qed
qed

text \<open>
  Claim C8, as stated: for a year list with at least two elements, the average gap equals
  the arithmetic mean of the consecutive differences rounded to one decimal place. For 21
  ascending years that span 23 years the mean is 1.15, which rounds to 1.2 by either rule
  for a tie; the double nearest to 1.15 lies below it, and \<^verbatim>\<open>toFixed(1)\<close> prints "1.1".
\<close>

theorem gap_tie_counterexample:
  "gap (calculateStatistics (new_ChristmasSundayFinder 2026)
          [2000, 2001, 2002, 2003, 2004, 2005, 2006, 2007, 2008, 2009, 2010, 2011, 2012,
           2013, 2014, 2015, 2016, 2017, 2019, 2021, 2023] 2000 2025)
     = Str ''1.1''
   \<and> mean (consecutive_differences
          [2000, 2001, 2002, 2003, 2004, 2005, 2006, 2007, 2008, 2009, 2010, 2011, 2012,
           2013, 2014, 2015, 2016, 2017, 2019, 2021, 2023]) = 115 / 100
   \<and> one_decimal round_half_up (115 / 100) = ''1.2''
   \<and> one_decimal round_half_even (115 / 100) = ''1.2''"
proof -
  let ?ys = "[2000, 2001, 2002, 2003, 2004, 2005, 2006, 2007, 2008, 2009, 2010, 2011, 2012,
           2013, 2014, 2015, 2016, 2017, 2019, 2021, 2023 :: int]"
  have len: "length ?ys = Suc 20" by simp
  have b: "\<forall>y \<in> set ?ys. \<bar>y\<bar> \<le> 2 ^ 47" by simp
  have e: "(of_int (?ys ! 20 - ?ys ! 0) :: rat) / of_nat 20 = 23 / 20" by simp
  note L = gap_long [OF len _ b, unfolded e]
  have d: "to_double (23 / 20) = Num (2589569785738035 / 2251799813685248)"
    by code_simp
  have f: "toFixed1 (Num (2589569785738035 / 2251799813685248)) = Str ''1.1''"
    by code_simp
  have one: "gap (calculateStatistics (new_ChristmasSundayFinder 2026) ?ys 2000 2025) = Str ''1.1''"
    using L(1) [of "new_ChristmasSundayFinder 2026" 2000 2025] by (simp only: d f)
  have two: "mean (consecutive_differences ?ys) = 115 / 100"
    using L(2) by simp
  have three: "one_decimal round_half_up (115 / 100) = ''1.2''" by code_simp
  have four: "one_decimal round_half_even (115 / 100) = ''1.2''" by code_simp
  show ?thesis using one two three four by (simp only:)
qed

text \<open>
  Claim C8, amended: for a year list with fewer than two elements the average gap is the
  sentinel "-"; for a year list of at least two and fewer than \<open>2^32\<close> elements, with years
  of absolute value at most \<open>2^47\<close>, it is a numeral with one fraction digit (with a minus
  sign when the mean is negative) that is nearest to the arithmetic mean of the
  consecutive differences: it differs from the mean by at most 0.05. When the mean lies
  midway between two such numerals, either of them can be the result.
\<close>

theorem gap_nearest_tenth:
  "(length years < 2 \<longrightarrow>
      gap (calculateStatistics this years startYear endYear) = Str ''-'')
   \<and> (2 \<le> length years \<and> length years < 2 ^ 32 \<and> (\<forall>y \<in> set years. \<bar>y\<bar> \<le> 2 ^ 47) \<longrightarrow>
      (\<exists>n. gap (calculateStatistics this years startYear endYear)
              = Str ((if mean (consecutive_differences years) < 0 then ''-'' else []) @
                     digits_of (n div 10) @ ''.'' @ [digit_char (n mod 10)])
            \<and> \<bar>of_nat n / 10 - \<bar>mean (consecutive_differences years)\<bar>\<bar> \<le> (1 / 20 :: rat)))"
proof (intro conjI impI)
  assume "length years < 2"
  then show "gap (calculateStatistics this years startYear endYear) = Str ''-''"
    by (rule gap_short)
next
  assume a: "2 \<le> length years \<and> length years < 2 ^ 32 \<and> (\<forall>y \<in> set years. \<bar>y\<bar> \<le> 2 ^ 47)"
  then obtain j where j: "length years = Suc j" "0 < j" "j < 2 ^ 32"
    by (cases "length years") auto
  have b: "\<forall>y \<in> set years. \<bar>y\<bar> \<le> 2 ^ 47" using a by blast
  note L = gap_long [OF j(1,2) b]
  show "\<exists>n. gap (calculateStatistics this years startYear endYear)
              = Str ((if mean (consecutive_differences years) < 0 then ''-'' else []) @
                     digits_of (n div 10) @ ''.'' @ [digit_char (n mod 10)])
            \<and> \<bar>of_nat n / 10 - \<bar>mean (consecutive_differences years)\<bar>\<bar> \<le> (1 / 20 :: rat)"
    unfolding L(1) L(2)
    by (rule toFixed1_quotient [OF L(3) j(2,3)])
qed

theorem gap_nearest_tenth_witness:
  "gap (calculateStatistics (new_ChristmasSundayFinder 2026) [2005] 2000 2025) = Str ''-''
   \<and> 2 \<le> length [2005, 2011, 2016, 2022 :: int]
   \<and> length [2005, 2011, 2016, 2022 :: int] < 2 ^ 32
   \<and> list_all (\<lambda>y. \<bar>y\<bar> \<le> 2 ^ 47) [2005, 2011, 2016, 2022 :: int]
   \<and> (\<exists>n. gap (calculateStatistics (new_ChristmasSundayFinder 2026)
                  [2005, 2011, 2016, 2022] 2000 2025)
              = Str ((if mean (consecutive_differences [2005, 2011, 2016, 2022]) < 0
                      then ''-'' else []) @
                     digits_of (n div 10) @ ''.'' @ [digit_char (n mod 10)])
            \<and> \<bar>of_nat n / 10 - \<bar>mean (consecutive_differences [2005, 2011, 2016, 2022])\<bar>\<bar>
                \<le> (1 / 20 :: rat))"
  using gap_nearest_tenth [of "[2005]" "new_ChristmasSundayFinder 2026" 2000 2025]
    gap_nearest_tenth [of "[2005, 2011, 2016, 2022]" "new_ChristmasSundayFinder 2026" 2000 2025]
  by simp

section \<open>A run of the page\<close>

text \<open>
  For the range 2000 to 2025 the page shows four years, a frequency of 15.4 percent and
  an average gap of 5.7 years; with the clock in 2026 no year of the list lies ahead.
\<close>

lemma displayResults_example:
  "displayResults 2026 [2005, 2011, 2016, 2022] 2000 2025
     = \<lparr>total = 4, frequency = Str ''15.4'', nextSunday = StringV ''None in range'',
        gap = Str ''5.7''\<rparr>"
proof -
  let ?fnd = "new_ChristmasSundayFinder 2026"
  let ?ys = "[2005, 2011, 2016, 2022 :: int]"
  let ?r = "calculateStatistics ?fnd ?ys 2000 2025"
  have t: "num_add (num_sub (number_of 2025) (number_of 2000)) (Num 1) = Num 26"
    using totalYears_exact [of 2000 2025] by simp
  have c: "number_of (int (length ?ys)) = Num 4" by (simp add: number_of_def)
  have d: "num_div (Num 4) (Num 26) = Num (1385722962267845 / 9007199254740992)"
    by code_simp
  have m: "num_mul (Num (1385722962267845 / 9007199254740992)) (Num 100)
             = Num (8660768514174031 / 562949953421312)"
    by code_simp
  have f: "toFixed1 (Num (8660768514174031 / 562949953421312)) = Str ''15.4''"
    by code_simp
  have one: "frequency ?r = Str ''15.4''"
    unfolding frequency_unfold t c d m f ..
  have len: "length ?ys = Suc 3" by simp
  have b: "\<forall>y \<in> set ?ys. \<bar>y\<bar> \<le> 2 ^ 47" by simp
  have e: "(of_int (?ys ! 3 - ?ys ! 0) :: rat) / of_nat 3 = 17 / 3" by simp
  note L = gap_long [OF len _ b, unfolded e]
  have d': "to_double (17 / 3) = Num (6380099472108203 / 1125899906842624)"
    by code_simp
  have f': "toFixed1 (Num (6380099472108203 / 1125899906842624)) = Str ''5.7''"
    by code_simp
  have two: "gap ?r = Str ''5.7''"
    using L(1) [of ?fnd 2000 2025] by (simp only: d' f')
  have three: "total ?r = 4" "nextSunday ?r = StringV ''None in range''"
    by (simp_all add: calculateStatistics_def Let_def new_ChristmasSundayFinder_def)
  have "?r = \<lparr>total = total ?r, frequency = frequency ?r, nextSunday = nextSunday ?r,
             gap = gap ?r\<rparr>"
    by simp
  then show ?thesis unfolding displayResults_def one two three .
qed

end
